theory Spec2Isabelle
  imports Complex_Main "HOL-Library.AList"
begin

section \<open>Exceptions and values\<close>

text \<open>
  The script \<^verbatim>\<open>scripts/optimize_color.py\<close> works on Python floats and numpy arrays of
  floats. Floats are idealised as \<^typ>\<open>real\<close>; an array is the list of its samples in
  flattened order, and an image is the list of its channels. Every exception of the source
  is a value of \<open>error\<close>; a failed \<^verbatim>\<open>assert\<close> carries the source line of the statement.
\<close>

datatype error =
    AttributeError
  | ValueError
  | TypeError
  | KeyError
  | IndexError
  | ZeroDivisionError
  | AssertionError nat

type_synonym array = "real list"
type_synonym image = "array list"

section \<open>numpy: min, max, histogram\<close>

text \<open>
  \<^verbatim>\<open>ndarray.min()\<close> and \<^verbatim>\<open>ndarray.max()\<close> raise ValueError on a zero-size array. A sample
  that is not a number has no counterpart among the reals: in the code it makes both NaN,
  and every comparison with NaN is false.
\<close>

fun np_min :: "array \<Rightarrow> error + real" where
  "np_min [] = Inl ValueError"
| "np_min (x # xs) = Inr (fold min xs x)"

fun np_max :: "array \<Rightarrow> error + real" where
  "np_max [] = Inl ValueError"
| "np_max (x # xs) = Inr (fold max xs x)"

text \<open>
  The \<^verbatim>\<open>bins\<close> argument of \<^verbatim>\<open>histogram_distance\<close> and of \<^verbatim>\<open>np.histogram\<close>: absent (None),
  a number of equal-width bins, or a list of bin edges.
\<close>

datatype bins_arg = BinsNone | BinsInt int | BinsEdges "real list"

text \<open>
  Counts per bin for a list of edges: every bin is half-open \<open>[lo, hi)\<close> except the last,
  which is closed \<open>[lo, hi]\<close>. Samples outside the outer edges are not counted. Fewer than two
  edges give no bin.
\<close>

fun bin_counts :: "real list \<Rightarrow> array \<Rightarrow> nat list" where
  "bin_counts [lo, hi] a = [length (filter (\<lambda>x. lo \<le> x \<and> x \<le> hi) a)]"
| "bin_counts (lo # hi # es) a =
     length (filter (\<lambda>x. lo \<le> x \<and> x < hi) a) # bin_counts (hi # es) a"
| "bin_counts es a = []"

text \<open>\<^verbatim>\<open>np.linspace(lo, hi, n + 1)\<close>: the edges of \<open>n\<close> equal-width bins.\<close>

definition linspace :: "real \<Rightarrow> real \<Rightarrow> nat \<Rightarrow> real list" where
  "linspace lo hi n = map (\<lambda>i. lo + real i * (hi - lo) / real n) [0..<Suc n]"

text \<open>
  The range numpy uses for a number of bins: the data's minimum and maximum, widened by one
  half on each side when they coincide, and \<open>(0, 1)\<close> for an empty array.
\<close>

fun outer_edges :: "array \<Rightarrow> real \<times> real" where
  "outer_edges [] = (0, 1)"
| "outer_edges (x # xs) =
     (let lo = fold min xs x; hi = fold max xs x
      in if lo = hi then (lo - 1 / 2, hi + 1 / 2) else (lo, hi))"

text \<open>
  \<^verbatim>\<open>np.histogram(a, bins=bins)[0]\<close>: edges must increase monotonically (equal neighbours are
  accepted), a number of bins must be positive.
\<close>

fun np_histogram :: "array \<Rightarrow> bins_arg \<Rightarrow> error + nat list" where
  "np_histogram a BinsNone = Inl TypeError"
| "np_histogram a (BinsInt n) =
     (if n < 1 then Inl ValueError
      else case outer_edges a of (lo, hi) \<Rightarrow> Inr (bin_counts (linspace lo hi (nat n)) a))"
| "np_histogram a (BinsEdges es) =
     (if sorted es then Inr (bin_counts es a) else Inl ValueError)"

section \<open>histogram\_distance\<close>

definition eps :: real where
  "eps = 1 / 1000000"

text \<open>Python truthiness of the \<^verbatim>\<open>bins\<close> argument: None, 0 and the empty list are falsy.\<close>

fun truthy_bins :: "bins_arg \<Rightarrow> bool" where
  "truthy_bins BinsNone = False"
| "truthy_bins (BinsInt n) = (n \<noteq> 0)"
| "truthy_bins (BinsEdges es) = (es \<noteq> [])"

text \<open>\<^verbatim>\<open>[x / 10 for x in range(11)]\<close>\<close>

definition default_bins :: "real list" where
  "default_bins = map (\<lambda>x. real x / 10) [0..<11]"

text \<open>\<^verbatim>\<open>np.histogram(arr, bins=bins)[0] / arr.size\<close>\<close>

definition normalized :: "nat list \<Rightarrow> array \<Rightarrow> real list" where
  "normalized counts a = map (\<lambda>c. real c / real (length a)) counts"

text \<open>\<^verbatim>\<open>((hist1 - hist2)**2).sum()\<close>\<close>

definition sqerr_sum :: "real list \<Rightarrow> real list \<Rightarrow> real" where
  "sqerr_sum hist1 hist2 = sum_list (map (\<lambda>(p, q). (p - q)\<^sup>2) (zip hist1 hist2))"

text \<open>
  Lines 123 to 132 of \<^verbatim>\<open>histogram_distance\<close>: the default bins, the two normalized
  histograms, the two assertions on their sums and the sum of squared differences.
\<close>

definition compare_histograms :: "array \<Rightarrow> array \<Rightarrow> bins_arg \<Rightarrow> error + real" where
  "compare_histograms arr1 arr2 bins =
     (let bins = (if \<not> truthy_bins bins then BinsEdges default_bins else bins) in
      case np_histogram arr1 bins of Inl e \<Rightarrow> Inl e | Inr counts1 \<Rightarrow>
     (let hist1 = normalized counts1 arr1 in
      case np_histogram arr2 bins of Inl e \<Rightarrow> Inl e | Inr counts2 \<Rightarrow>
     (let hist2 = normalized counts2 arr2 in
      if \<not> (\<bar>sum_list hist1 - 1\<bar> < eps) then Inl (AssertionError 128) else
      if \<not> (\<bar>sum_list hist2 - 1\<bar> < eps) then Inl (AssertionError 129) else
      Inr (sqerr_sum hist1 hist2))))"

text \<open>Lines 117 to 121, the four assertions on the range of the samples, then the rest.\<close>

definition histogram_distance :: "array \<Rightarrow> array \<Rightarrow> bins_arg \<Rightarrow> error + real" where
  "histogram_distance arr1 arr2 bins =
     (case np_min arr1 of Inl e \<Rightarrow> Inl e | Inr min1 \<Rightarrow>
      if \<not> (min1 > 0 - eps) then Inl (AssertionError 118) else
     (case np_max arr1 of Inl e \<Rightarrow> Inl e | Inr max1 \<Rightarrow>
      if \<not> (max1 < 1 + eps) then Inl (AssertionError 119) else
     (case np_min arr2 of Inl e \<Rightarrow> Inl e | Inr min2 \<Rightarrow>
      if \<not> (min2 > 0 - eps) then Inl (AssertionError 120) else
     (case np_max arr2 of Inl e \<Rightarrow> Inl e | Inr max2 \<Rightarrow>
      if \<not> (max2 < 1 + eps) then Inl (AssertionError 121) else
      compare_histograms arr1 arr2 bins))))"

section \<open>calc\_downsample and the shapes main reads\<close>

text \<open>
  A division of Python numbers that returns a float returns a double: the exact quotient,
  rounded. The rounding is the parameter \<open>fl\<close>, and \<open>accurate fl x\<close> says that \<open>fl x\<close> is within
  the relative error \<open>2\<^sup>-\<^sup>5\<^sup>3\<close> of \<open>x\<close>, as rounding to the nearest double is for every \<open>x\<close> in
  the normal range.
\<close>

definition unit_roundoff :: real where
  "unit_roundoff = 1 / 2 ^ 53"

definition accurate :: "(real \<Rightarrow> real) \<Rightarrow> real \<Rightarrow> bool" where
  "accurate fl x = (\<bar>fl x - x\<bar> \<le> unit_roundoff * \<bar>x\<bar>)"

text \<open>True division \<^verbatim>\<open>a / b\<close> (\<^verbatim>\<open>from __future__ import division\<close>).\<close>

definition true_div :: "(real \<Rightarrow> real) \<Rightarrow> real \<Rightarrow> real \<Rightarrow> error + real" where
  "true_div fl a b = (if b = 0 then Inl ZeroDivisionError else Inr (fl (a / b)))"

text \<open>
  Floor division \<^verbatim>\<open>a // b\<close> with a float operand: the floor of the exact quotient of the
  operands, as a float.
\<close>

definition floor_div :: "real \<Rightarrow> real \<Rightarrow> error + real" where
  "floor_div a b = (if b = 0 then Inl ZeroDivisionError else Inr (real_of_int \<lfloor>a / b\<rfloor>))"

text \<open>\<^verbatim>\<open>int(x)\<close> of a float truncates toward zero.\<close>

definition py_int :: "real \<Rightarrow> int" where
  "py_int x = (if 0 \<le> x then \<lfloor>x\<rfloor> else \<lceil>x\<rceil>)"

text \<open>The function has no \<^verbatim>\<open>else\<close> branch: falling off the end returns None.\<close>

definition calc_downsample ::
  "(real \<Rightarrow> real) \<Rightarrow> int \<Rightarrow> int \<Rightarrow> int \<Rightarrow> error + real option" where
  "calc_downsample fl w h target =
     (if w > h then map_sum id Some (true_div fl (real_of_int h) (real_of_int target))
      else if h \<ge> w then map_sum id Some (true_div fl (real_of_int w) (real_of_int target))
      else Inr None)"

text \<open>
  Lines 160 to 165 of \<^verbatim>\<open>main\<close>, the width and height read for the source image: the ratio
  is the \<^verbatim>\<open>--downsample\<close> option, an int, or else \<^verbatim>\<open>calc_downsample\<close> with its default target
  400, and both dimensions are floor-divided by it.
\<close>

definition source_shape ::
  "(real \<Rightarrow> real) \<Rightarrow> int \<Rightarrow> int \<Rightarrow> int option \<Rightarrow> error + int \<times> int" where
  "source_shape fl width height downsample =
     (case downsample of
        None \<Rightarrow>
          (case calc_downsample fl width height 400 of
             Inl e \<Rightarrow> Inl e
           | Inr None \<Rightarrow> Inl TypeError
           | Inr (Some ratio) \<Rightarrow>
               (case floor_div (real_of_int width) ratio of Inl e \<Rightarrow> Inl e | Inr w \<Rightarrow>
               (case floor_div (real_of_int height) ratio of Inl e \<Rightarrow> Inl e | Inr h \<Rightarrow>
                Inr (py_int w, py_int h))))
      | Some ratio \<Rightarrow>
          if ratio = 0 then Inl ZeroDivisionError
          else Inr (width div ratio, height div ratio))"

text \<open>
  Lines 171 to 176, the same for the reference image, where the dimensions are divided with
  \<^verbatim>\<open>/\<close> and truncated.
\<close>

definition reference_shape ::
  "(real \<Rightarrow> real) \<Rightarrow> int \<Rightarrow> int \<Rightarrow> int option \<Rightarrow> error + int \<times> int" where
  "reference_shape fl width height downsample =
     (case (case downsample of
              None \<Rightarrow>
                (case calc_downsample fl width height 400 of
                   Inl e \<Rightarrow> Inl e
                 | Inr None \<Rightarrow> Inl TypeError
                 | Inr (Some ratio) \<Rightarrow> Inr ratio)
            | Some ratio \<Rightarrow> Inr (real_of_int ratio)) of
        Inl e \<Rightarrow> Inl e
      | Inr ratio \<Rightarrow>
          (case true_div fl (real_of_int width) ratio of Inl e \<Rightarrow> Inl e | Inr w \<Rightarrow>
          (case true_div fl (real_of_int height) ratio of Inl e \<Rightarrow> Inl e | Inr h \<Rightarrow>
           Inr (py_int w, py_int h))))"

section \<open>ColorEstimator\<close>

text \<open>
  A ParameterState is a Python dict from parameter names to floats: an association list
  read with \<^const>\<open>map_of\<close> and written with \<^const>\<open>AList.update\<close>. The estimator holds
  references to its two image buffers; the buffers live in a store of arrays, where an
  address is an index and a new array is appended.
\<close>

type_synonym params = "(string \<times> real) list"
type_synonym store = "image list"

record estimator =
  src :: nat
  ref :: nat
  state :: params

text \<open>\<^verbatim>\<open>keys = "gamma_red,gamma_green,gamma_blue,contrast".split(',')\<close>\<close>

fun split_at :: "char \<Rightarrow> string \<Rightarrow> string list" where
  "split_at sep [] = [[]]"
| "split_at sep (c # cs) =
     (if c = sep then [] # split_at sep cs
      else case split_at sep cs of [] \<Rightarrow> [[c]] | w # ws \<Rightarrow> (c # w) # ws)"

definition keys :: "string list" where
  "keys = split_at CHR '','' ''gamma_red,gamma_green,gamma_blue,contrast''"

text \<open>\<^verbatim>\<open>ndarray.copy()\<close>: a new array with the same contents.\<close>

definition np_copy :: "nat \<Rightarrow> store \<Rightarrow> nat \<times> store" where
  "np_copy a s = (length s, s @ [s ! a])"

subsection \<open>validate and the constructor\<close>

text \<open>
  \<^verbatim>\<open>validate(self)\<close> reads \<^verbatim>\<open>self.state\<close>, returns False at the first missing key and
  otherwise falls off the end of the loop, which returns None (here \<^const>\<open>None\<close>).
\<close>

fun validate_loop :: "string list \<Rightarrow> params \<Rightarrow> bool option" where
  "validate_loop [] st = None"
| "validate_loop (k # ks) st =
     (if map_of st k = None then Some False else validate_loop ks st)"

definition validate :: "estimator \<Rightarrow> bool option" where
  "validate self = validate_loop keys (state self)"

text \<open>
  The test \<^verbatim>\<open>if not state\<close>: None and the empty dict are falsy and take the default branch
  (\<^const>\<open>None\<close> here); any other dict is the state given.
\<close>

fun falsy_or :: "params option \<Rightarrow> params option" where
  "falsy_or None = None"
| "falsy_or (Some st) = (if st = [] then None else Some st)"

text \<open>\<^verbatim>\<open>dict(gamma_red=1.0, gamma_green=1.0, gamma_blue=1.0, contrast=10)\<close>\<close>

definition default_params :: params where
  "default_params =
     [(''gamma_red'', 1), (''gamma_green'', 1), (''gamma_blue'', 1), (''contrast'', 10)]"

text \<open>
  \<^verbatim>\<open>__init__\<close> calls \<^verbatim>\<open>self._validate(state)\<close>. The class body defines \<^verbatim>\<open>validate\<close> and no
  \<^verbatim>\<open>_validate\<close>, so the attribute can only come from the base class \<^verbatim>\<open>simanneal.Annealer\<close>,
  which is not part of this repository: \<open>inherited_validate\<close> is that attribute, \<^const>\<open>None\<close>
  when the base class has none (then the lookup raises AttributeError).
  The two buffers are copied before the state is looked at, and the base constructor
  stores the parameters as \<^verbatim>\<open>self.state\<close>.
\<close>

definition init ::
  "(params \<Rightarrow> error + bool) option \<Rightarrow> nat \<Rightarrow> nat \<Rightarrow> params option \<Rightarrow> store
     \<Rightarrow> (error + estimator) \<times> store" where
  "init inherited_validate source reference st s =
     (case np_copy source s of (src_a, s1) \<Rightarrow>
     (case np_copy reference s1 of (ref_a, s2) \<Rightarrow>
     (case falsy_or st of
        None \<Rightarrow> (Inr \<lparr>src = src_a, ref = ref_a, state = default_params\<rparr>, s2)
      | Some given \<Rightarrow>
          (case inherited_validate of
             None \<Rightarrow> (Inl AttributeError, s2)
           | Some v \<Rightarrow>
               (case v given of
                  Inl e \<Rightarrow> (Inl e, s2)
                | Inr ok \<Rightarrow>
                    if ok then (Inr \<lparr>src = src_a, ref = ref_a, state = given\<rparr>, s2)
                    else (Inl ValueError, s2))))))"

subsection \<open>move\<close>

text \<open>
  The random module is a stream of draws: \<^verbatim>\<open>random.choice(seq)\<close> takes the next draw,
  reduced modulo the length, as an index into \<open>seq\<close>, and raises IndexError on an empty
  sequence.
\<close>

type_synonym rng = "nat \<Rightarrow> nat"

definition choice :: "'a list \<Rightarrow> rng \<Rightarrow> (error + 'a) \<times> rng" where
  "choice seq g =
     (if seq = [] then (Inl IndexError, g)
      else (Inr (seq ! (g 0 mod length seq)), \<lambda>i. g (Suc i)))"

text \<open>
  The \<^verbatim>\<open>while invalid_key\<close> loop: one round per call, the recursive call is the
  \<^verbatim>\<open>continue\<close> after a new key was drawn.
\<close>

function move_loop :: "params \<Rightarrow> string \<Rightarrow> rng \<Rightarrow> (error + string) \<times> rng" where
  "move_loop st k g =
     (if k = ''bias'' then
        (case map_of st k of
           None \<Rightarrow> (Inl KeyError, g)
         | Some v \<Rightarrow>
             if v > 909 / 1000 then
               (case choice keys g of
                  (Inl e, g') \<Rightarrow> (Inl e, g')
                | (Inr k', g') \<Rightarrow> move_loop st k' g')
             else (Inr k, g))
      else (Inr k, g))"
  by pat_completeness auto

termination move_loop
proof (relation "measure (\<lambda>(st, k, g). if k = ''bias'' then 1 else 0)", goal_cases)
  case 1
  show ?case by simp
next
  case (2 st k g v r g' k')
  have "choice keys g = (Inr k', g')"
    using 2 by simp
  then have "k' \<in> set keys"
    by (auto simp: choice_def split: if_splits)
  then have "k' \<noteq> ''bias''"
    by (auto simp: keys_def)
  with 2 show ?case by simp
qed

declare move_loop.simps [simp del]

text \<open>
  \<^verbatim>\<open>move\<close>: a key and a multiplier are drawn, the loop runs, and the drawn key's value is
  replaced by its product with the multiplier. \<^verbatim>\<open>self.state[k]\<close> raises KeyError on a
  missing key.
\<close>

definition move :: "estimator \<Rightarrow> rng \<Rightarrow> (error + estimator) \<times> rng" where
  "move self g =
     (case choice keys g of
        (Inl e, g1) \<Rightarrow> (Inl e, g1)
      | (Inr k, g1) \<Rightarrow>
     (case choice [9 / 10, 11 / 10] g1 of
        (Inl e, g2) \<Rightarrow> (Inl e, g2)
      | (Inr multiplier, g2) \<Rightarrow>
     (case move_loop (state self) k g2 of
        (Inl e, g3) \<Rightarrow> (Inl e, g3)
      | (Inr k, g3) \<Rightarrow>
     (case map_of (state self) k of
        None \<Rightarrow> (Inl KeyError, g3)
      | Some v \<Rightarrow>
          (let newval = v * multiplier
           in (Inr (self\<lparr>state := AList.update k newval (state self)\<rparr>), g3))))))"

subsection \<open>cmd: the operation descriptor\<close>

text \<open>
  Decimal digits of a natural number, and Python's fixed-point presentation \<^verbatim>\<open>.<p>f\<close>: the
  value is rounded to \<open>p\<close> decimals, ties to even, and printed with its sign, its integer
  part and exactly \<open>p\<close> decimals.
\<close>

definition digit_char :: "nat \<Rightarrow> char" where
  "digit_char d = ''0123456789'' ! d"

function show_nat :: "nat \<Rightarrow> string" where
  "show_nat n = (if n < 10 then [digit_char n] else show_nat (n div 10) @ [digit_char (n mod 10)])"
  by pat_completeness auto
termination
  by (relation "measure id") auto

declare show_nat.simps [simp del]

definition round_half_even :: "real \<Rightarrow> nat" where
  "round_half_even y =
     (let n = nat \<lfloor>y\<rfloor>; r = y - real n
      in if r > 1 / 2 \<or> (r = 1 / 2 \<and> odd n) then Suc n else n)"

definition fmt_fixed :: "nat \<Rightarrow> real \<Rightarrow> string" where
  "fmt_fixed p v =
     (let n = round_half_even (\<bar>v\<bar> * 10 ^ p);
          frac = show_nat (n mod 10 ^ p)
      in (if v < 0 then ''-'' else []) @ show_nat (n div 10 ^ p) @
         (if p = 0 then [] else ''.'' @ replicate (p - length frac) CHR ''0'' @ frac))"

text \<open>
  The format specs modelled are those of the shape \<^verbatim>\<open>.<digits>f\<close>, which is all the
  template of \<^verbatim>\<open>cmd\<close> uses; any other spec is ValueError here.
\<close>

definition is_digit :: "char \<Rightarrow> bool" where
  "is_digit c = (c \<in> set ''0123456789'')"

definition digit_val :: "char \<Rightarrow> nat" where
  "digit_val c = length (takeWhile (\<lambda>d. d \<noteq> c) ''0123456789'')"

text \<open>The number a string of decimal digits denotes.\<close>

definition read_nat :: "string \<Rightarrow> nat" where
  "read_nat ds = foldl (\<lambda>n d. 10 * n + digit_val d) 0 ds"

definition parse_spec :: "string \<Rightarrow> nat option" where
  "parse_spec spec =
     (case spec of
        [] \<Rightarrow> None
      | c # rest \<Rightarrow>
          if c = CHR ''.'' \<and> rest \<noteq> [] \<and> last rest = CHR ''f'' \<and> butlast rest \<noteq> []
             \<and> list_all is_digit (butlast rest)
          then Some (read_nat (butlast rest))
          else None)"

text \<open>One replacement field \<^verbatim>\<open>{name:spec}\<close>: a missing keyword argument is KeyError.\<close>

definition format_field :: "params \<Rightarrow> string \<Rightarrow> string \<Rightarrow> error + string" where
  "format_field kwargs name spec =
     (case map_of kwargs name of
        None \<Rightarrow> Inl KeyError
      | Some v \<Rightarrow>
          (case parse_spec spec of
             None \<Rightarrow> Inl ValueError
           | Some p \<Rightarrow> Inr (fmt_fixed p v)))"

text \<open>
  \<^verbatim>\<open>template.format(**kwargs)\<close>, read left to right: literal text, then inside a field its
  name up to the colon and its spec up to the closing brace. Keyword arguments the
  template does not name are ignored.
\<close>

datatype scan = Lit | Name string | Spec string string

fun py_format :: "scan \<Rightarrow> string \<Rightarrow> params \<Rightarrow> error + string" where
  "py_format Lit [] kwargs = Inr []"
| "py_format Lit (c # cs) kwargs =
     (if c = CHR ''{'' then py_format (Name []) cs kwargs
      else case py_format Lit cs kwargs of Inl e \<Rightarrow> Inl e | Inr out \<Rightarrow> Inr (c # out))"
| "py_format (Name n) [] kwargs = Inl ValueError"
| "py_format (Name n) (c # cs) kwargs =
     (if c = CHR '':'' then py_format (Spec n []) cs kwargs
      else if c = CHR ''}'' then
        (case format_field kwargs n [] of
           Inl e \<Rightarrow> Inl e
         | Inr txt \<Rightarrow>
             (case py_format Lit cs kwargs of Inl e \<Rightarrow> Inl e | Inr out \<Rightarrow> Inr (txt @ out)))
      else py_format (Name (n @ [c])) cs kwargs)"
| "py_format (Spec n sp) [] kwargs = Inl ValueError"
| "py_format (Spec n sp) (c # cs) kwargs =
     (if c = CHR ''}'' then
        (case format_field kwargs n sp of
           Inl e \<Rightarrow> Inl e
         | Inr txt \<Rightarrow>
             (case py_format Lit cs kwargs of Inl e \<Rightarrow> Inl e | Inr out \<Rightarrow> Inr (txt @ out)))
      else py_format (Spec n (sp @ [c])) cs kwargs)"

definition cmd :: "params \<Rightarrow> error + string" where
  "cmd st =
     py_format Lit
       (''gamma r {gamma_red:.2f}, gamma g {gamma_green:.2f}, gamma b {gamma_blue:.2f}, '' @
        ''sigmoidal rgb {contrast:.2f} 0.5'')
       st"

text \<open>
  What the spec asks of each value in the descriptor, "2 decimal digits of precision", said
  without the formatter: \<open>n\<close> is the natural number nearest to \<open>y\<close>, the even one of the two
  when \<open>y\<close> lies halfway; and \<open>txt\<close> is a minus sign when the value is negative, then the
  decimal digits of an integer part without leading zeros, a point and two digits, which
  together denote the hundredths nearest to the value's magnitude.
\<close>

definition nearest_tie_even :: "real \<Rightarrow> nat \<Rightarrow> bool" where
  "nearest_tie_even y n = (\<bar>real n - y\<bar> < 1 / 2 \<or> (\<bar>real n - y\<bar> = 1 / 2 \<and> even n))"

definition spec_two_decimals :: "real \<Rightarrow> string \<Rightarrow> bool" where
  "spec_two_decimals v txt =
     (\<exists>ip d1 d2.
        txt = (if v < 0 then ''-'' else []) @ ip @ [CHR ''.'', d1, d2] \<and>
        ip \<noteq> [] \<and> list_all is_digit (ip @ [d1, d2]) \<and>
        (hd ip = CHR ''0'' \<longrightarrow> ip = ''0'') \<and>
        nearest_tie_even (\<bar>v\<bar> * 100) (read_nat (ip @ [d1, d2])))"

subsection \<open>energy\<close>

text \<open>
  \<^verbatim>\<open>parse_operations\<close> (module \<^verbatim>\<open>rio_color.operations\<close>) is not among the sources: it is a
  parameter, from the descriptor to a list of functions or an exception. Such a function
  receives one array reference and nothing else of the estimator, so all it can do to the
  store is overwrite that array and allocate new ones: \<open>arg_after\<close> is the argument's content
  when the call ends (the identity for a function that does not write to it), and \<open>outcome\<close>
  is the exception raised, \<^const>\<open>None\<close> when the argument itself is returned, or the content
  of the new array returned.
\<close>

record func =
  arg_after :: "image \<Rightarrow> image"
  outcome :: "image \<Rightarrow> error + image option"

definition call :: "func \<Rightarrow> nat \<Rightarrow> store \<Rightarrow> (error + nat) \<times> store" where
  "call f a s =
     (let x = s ! a; s' = s[a := arg_after f x]
      in case outcome f x of
           Inl e \<Rightarrow> (Inl e, s')
         | Inr None \<Rightarrow> (Inr a, s')
         | Inr (Some r) \<Rightarrow> (Inr (length s'), s' @ [r]))"

text \<open>\<^verbatim>\<open>for func in parse_operations(ops): arr = func(arr)\<close>\<close>

fun apply_funcs :: "func list \<Rightarrow> nat \<Rightarrow> store \<Rightarrow> (error + nat) \<times> store" where
  "apply_funcs [] arr s = (Inr arr, s)"
| "apply_funcs (f # fs) arr s =
     (case call f arr s of
        (Inl e, s') \<Rightarrow> (Inl e, s')
      | (Inr arr', s') \<Rightarrow> apply_funcs fs arr' s')"

text \<open>Indexing the first axis of an image with a non-negative index.\<close>

definition channel :: "image \<Rightarrow> nat \<Rightarrow> error + array" where
  "channel img i = (if i < length img then Inr (img ! i) else Inl IndexError)"

text \<open>\<^verbatim>\<open>[histogram_distance(self.ref[i], arr[i]) for i in range(3)]\<close>\<close>

fun scores :: "nat list \<Rightarrow> image \<Rightarrow> image \<Rightarrow> error + real list" where
  "scores [] reference arr = Inr []"
| "scores (i # is) reference arr =
     (case channel reference i of Inl e \<Rightarrow> Inl e | Inr r \<Rightarrow>
     (case channel arr i of Inl e \<Rightarrow> Inl e | Inr a \<Rightarrow>
     (case histogram_distance r a BinsNone of Inl e \<Rightarrow> Inl e | Inr d \<Rightarrow>
     (case scores is reference arr of Inl e \<Rightarrow> Inl e | Inr ds \<Rightarrow> Inr (d # ds)))))"

definition energy ::
  "(string \<Rightarrow> error + func list) \<Rightarrow> estimator \<Rightarrow> store \<Rightarrow> (error + real) \<times> store" where
  "energy parse_operations self s =
     (case np_copy (src self) s of (arr, s1) \<Rightarrow>
     (case cmd (state self) of Inl e \<Rightarrow> (Inl e, s1) | Inr ops \<Rightarrow>
     (case parse_operations ops of Inl e \<Rightarrow> (Inl e, s1) | Inr funcs \<Rightarrow>
     (case apply_funcs funcs arr s1 of
        (Inl e, s2) \<Rightarrow> (Inl e, s2)
      | (Inr arr', s2) \<Rightarrow>
          (case scores [0..<3] (s2 ! ref self) (s2 ! arr') of
             Inl e \<Rightarrow> (Inl e, s2)
           | Inr sc \<Rightarrow> (Inr (sum_list sc * 100), s2))))))"

text \<open>
  The transform the spec speaks of, on values: what one function returns for an array
  content, and the functions applied in sequence.
\<close>

definition func_value :: "func \<Rightarrow> image \<Rightarrow> error + image" where
  "func_value f x =
     (case outcome f x of
        Inl e \<Rightarrow> Inl e
      | Inr None \<Rightarrow> Inr (arg_after f x)
      | Inr (Some r) \<Rightarrow> Inr r)"

fun transform :: "func list \<Rightarrow> image \<Rightarrow> error + image" where
  "transform [] x = Inr x"
| "transform (f # fs) x =
     (case func_value f x of Inl e \<Rightarrow> Inl e | Inr y \<Rightarrow> transform fs y)"

section \<open>Properties of histogram\_distance\<close>

lemma fold_min_gr: "(c < fold min xs (x::real)) = (\<forall>y\<in>set (x # xs). c < y)"
  by (induction xs arbitrary: x) auto

lemma fold_max_less: "(fold max xs (x::real) < c) = (\<forall>y\<in>set (x # xs). y < c)"
  by (induction xs arbitrary: x) auto

lemma np_min_gr: "a \<noteq> [] \<Longrightarrow> \<exists>m. np_min a = Inr m \<and> (c < m) = (\<forall>y\<in>set a. c < y)"
  by (cases a) (simp_all add: fold_min_gr)

lemma np_max_less: "a \<noteq> [] \<Longrightarrow> \<exists>m. np_max a = Inr m \<and> (m < c) = (\<forall>y\<in>set a. y < c)"
  by (cases a) (simp_all add: fold_max_less)

text \<open>On non-empty arrays the four range assertions are tests on every sample.\<close>

lemma histogram_distance_cases:
  assumes "arr1 \<noteq> []" "arr2 \<noteq> []"
  shows "histogram_distance arr1 arr2 bins =
     (if \<not> (\<forall>x\<in>set arr1. 0 - eps < x) then Inl (AssertionError 118)
      else if \<not> (\<forall>x\<in>set arr1. x < 1 + eps) then Inl (AssertionError 119)
      else if \<not> (\<forall>x\<in>set arr2. 0 - eps < x) then Inl (AssertionError 120)
      else if \<not> (\<forall>x\<in>set arr2. x < 1 + eps) then Inl (AssertionError 121)
      else compare_histograms arr1 arr2 bins)"
proof -
  obtain m1 where m1: "np_min arr1 = Inr m1" "(0 - eps < m1) = (\<forall>y\<in>set arr1. 0 - eps < y)"
    using np_min_gr[OF assms(1)] by blast
  obtain M1 where M1: "np_max arr1 = Inr M1" "(M1 < 1 + eps) = (\<forall>y\<in>set arr1. y < 1 + eps)"
    using np_max_less[OF assms(1)] by blast
  obtain m2 where m2: "np_min arr2 = Inr m2" "(0 - eps < m2) = (\<forall>y\<in>set arr2. 0 - eps < y)"
    using np_min_gr[OF assms(2)] by blast
  obtain M2 where M2: "np_max arr2 = Inr M2" "(M2 < 1 + eps) = (\<forall>y\<in>set arr2. y < 1 + eps)"
    using np_max_less[OF assms(2)] by blast
  show ?thesis
    unfolding histogram_distance_def m1(1) M1(1) m2(1) M2(1) sum.case
    using m1(2) M1(2) m2(2) M2(2) by simp
qed

lemma np_histogram_errors: "np_histogram a bins = Inl e \<Longrightarrow> e = TypeError \<or> e = ValueError"
  by (cases bins) (auto split: if_splits prod.splits)

lemma compare_histograms_tags:
  assumes "compare_histograms arr1 arr2 bins = Inl (AssertionError l)"
  shows "l = 128 \<or> l = 129"
proof -
  define bs where "bs = (if \<not> truthy_bins bins then BinsEdges default_bins else bins)"
  show ?thesis
  proof (cases "np_histogram arr1 bs")
    case (Inl e)
    with assms np_histogram_errors[OF Inl] show ?thesis
      by (auto simp: compare_histograms_def bs_def[symmetric])
  next
    case c1: (Inr c1)
    show ?thesis
    proof (cases "np_histogram arr2 bs")
      case (Inl e)
      with assms c1 np_histogram_errors[OF Inl] show ?thesis
        by (auto simp: compare_histograms_def bs_def[symmetric])
    next
      case (Inr c2)
      with assms c1 show ?thesis
        by (auto simp: compare_histograms_def bs_def[symmetric] Let_def split: if_splits)
    qed
  qed
qed

lemma default_bins_eq:
  "default_bins = [0, 1 / 10, 2 / 10, 3 / 10, 4 / 10, 5 / 10, 6 / 10, 7 / 10, 8 / 10, 9 / 10, 1]"
  by (simp add: default_bins_def upt_rec)

text \<open>
  C5, as the code has it. Whenever a sample of either array is at or below \<open>0 - eps\<close> or at
  or above \<open>1 + eps\<close>, \<^verbatim>\<open>histogram_distance\<close> raises: one of the four range assertions of
  lines 118 to 121 fails, unless the first array is empty, where \<^verbatim>\<open>min\<close> raises ValueError
  before the assertion is reached. And whenever every sample of both arrays lies strictly
  between \<open>0 - eps\<close> and \<open>1 + eps\<close>, none of the four range assertions fails. Neither
  statement has a converse here: a NaN sample is in neither range, and the code fails the
  assertion on it.
\<close>

theorem histogram_distance_range_assertions:
  "((\<exists>x\<in>set arr1 \<union> set arr2. x \<le> 0 - eps \<or> 1 + eps \<le> x) \<longrightarrow>
      (if arr1 = [] then histogram_distance arr1 arr2 bins = Inl ValueError
       else histogram_distance arr1 arr2 bins \<in> Inl ` AssertionError ` {118, 119, 120, 121})) \<and>
   ((\<forall>x\<in>set arr1 \<union> set arr2. 0 - eps < x \<and> x < 1 + eps) \<longrightarrow>
      histogram_distance arr1 arr2 bins \<notin> Inl ` AssertionError ` {118, 119, 120, 121})"
proof -
  have t: "compare_histograms arr1 arr2 bins \<notin> Inl ` AssertionError ` {118, 119, 120, 121}"
    using compare_histograms_tags[of arr1 arr2 bins] by auto
  show ?thesis
  proof (cases "arr1 = []")
    case True
    then show ?thesis by (simp add: histogram_distance_def)
  next
    case ne1: False
    show ?thesis
    proof (cases "arr2 = []")
      case True
      obtain m1 where m1: "np_min arr1 = Inr m1" "(0 - eps < m1) = (\<forall>y\<in>set arr1. 0 - eps < y)"
        using np_min_gr[OF ne1] by blast
      obtain M1 where M1: "np_max arr1 = Inr M1" "(M1 < 1 + eps) = (\<forall>y\<in>set arr1. y < 1 + eps)"
        using np_max_less[OF ne1] by blast
      have "histogram_distance arr1 [] bins =
              (if \<not> (\<forall>x\<in>set arr1. 0 - eps < x) then Inl (AssertionError 118)
               else if \<not> (\<forall>x\<in>set arr1. x < 1 + eps) then Inl (AssertionError 119)
               else Inl ValueError)"
        unfolding histogram_distance_def m1(1) M1(1) sum.case
        using m1(2) M1(2) by simp
      with True ne1 show ?thesis by (auto simp: not_less)
    next
      case ne2: False
      show ?thesis
        unfolding histogram_distance_cases[OF ne1 ne2]
        using t ne1 by (auto simp: not_less)
    qed
  qed
qed

theorem histogram_distance_range_assertions_witness:
  "histogram_distance [1 / 2] [2] BinsNone \<in> Inl ` AssertionError ` {118, 119, 120, 121} \<and>
   histogram_distance [] [2] BinsNone = Inl ValueError \<and>
   histogram_distance [1 / 2] [1 / 2] BinsNone \<notin> Inl ` AssertionError ` {118, 119, 120, 121}"
  using histogram_distance_range_assertions[of "[1 / 2]" "[2]" BinsNone]
    histogram_distance_range_assertions[of "[]" "[2]" BinsNone]
    histogram_distance_range_assertions[of "[1 / 2]" "[1 / 2]" BinsNone]
  by (simp add: eps_def)

text \<open>
  C5 as stated fails on the boundary: the one sample \<open>0 - eps\<close> is neither less than
  \<open>0 - eps\<close> nor greater than \<open>1 + eps\<close>, so the array lies within the tolerance-widened
  interval, and the assertion of line 118 fails all the same.
\<close>

theorem histogram_distance_boundary_raises:
  "histogram_distance [0 - eps] [1 / 2] BinsNone = Inl (AssertionError 118) \<and>
   \<not> (0 - eps < 0 - eps) \<and> \<not> (0 - eps > 1 + eps) \<and> \<not> (1 / 2 < 0 - eps) \<and> \<not> (1 / 2 > 1 + eps)"
  by (simp add: histogram_distance_def eps_def)

subsection \<open>The sums of the normalized histograms\<close>

lemma filter_split_length:
  assumes "\<And>x. R x = (P x \<or> Q x)" "\<And>x. \<not> (P x \<and> Q x)"
  shows "length (filter P a) + length (filter Q a) = length (filter R a)"
  using assms by (induction a) auto

text \<open>The bins of a sorted list of edges count exactly the samples between the outer edges.\<close>

lemma bin_counts_sum:
  "sorted (lo # hi # es) \<Longrightarrow>
   sum_list (bin_counts (lo # hi # es) a) = length (filter (\<lambda>x. lo \<le> x \<and> x \<le> last (hi # es)) a)"
proof (induction es arbitrary: lo hi)
  case Nil
  then show ?case by simp
next
  case (Cons e es)
  have s: "sorted (hi # e # es)" using Cons.prems by simp
  have le: "lo \<le> hi" "hi \<le> last (e # es)" using Cons.prems by auto
  have "length (filter (\<lambda>x. lo \<le> x \<and> x < hi) a) + length (filter (\<lambda>x. hi \<le> x \<and> x \<le> last (e # es)) a)
        = length (filter (\<lambda>x. lo \<le> x \<and> x \<le> last (e # es)) a)"
    using le by (intro filter_split_length) auto
  with Cons.IH[OF s] show ?case by simp
qed

lemma sum_list_normalized:
  "sum_list (normalized counts a) = real (sum_list counts) / real (length a)"
  by (induction counts) (simp_all add: normalized_def add_divide_distrib)

lemma default_counts_sum:
  assumes "\<forall>x\<in>set a. 0 \<le> x \<and> x \<le> 1"
  shows "sum_list (bin_counts default_bins a) = length a"
proof -
  have "sum_list (bin_counts default_bins a) = length (filter (\<lambda>x. 0 \<le> x \<and> x \<le> 1) a)"
    unfolding default_bins_eq by (subst bin_counts_sum) simp_all
  also have "filter (\<lambda>x. 0 \<le> x \<and> x \<le> 1) a = a"
    using assms by (simp add: filter_id_conv)
  finally show ?thesis .
qed

text \<open>
  Where the code is right: on non-empty arrays with every sample in the closed unit
  interval and the default bins, both normalized histograms sum to one, no assertion fails
  and the result is the sum of the squared differences of the two normalized histograms.
\<close>

lemma histogram_distance_unit_interval:
  assumes "arr1 \<noteq> []" "arr2 \<noteq> []"
    "\<forall>x\<in>set arr1. 0 \<le> x \<and> x \<le> 1" "\<forall>x\<in>set arr2. 0 \<le> x \<and> x \<le> 1"
  shows "sum_list (normalized (bin_counts default_bins arr1) arr1) = 1 \<and>
    sum_list (normalized (bin_counts default_bins arr2) arr2) = 1 \<and>
    histogram_distance arr1 arr2 BinsNone =
      Inr (sqerr_sum (normalized (bin_counts default_bins arr1) arr1)
                     (normalized (bin_counts default_bins arr2) arr2))"
proof -
  have e: "0 < eps" by (simp add: eps_def)
  have r1: "\<forall>x\<in>set arr1. 0 - eps < x \<and> x < 1 + eps" using assms(3) e by fastforce
  have r2: "\<forall>x\<in>set arr2. 0 - eps < x \<and> x < 1 + eps" using assms(4) e by fastforce
  have srt: "sorted default_bins" unfolding default_bins_eq by simp
  have s1: "sum_list (normalized (bin_counts default_bins arr1) arr1) = 1"
    using assms(1) by (simp add: sum_list_normalized default_counts_sum[OF assms(3)])
  have s2: "sum_list (normalized (bin_counts default_bins arr2) arr2) = 1"
    using assms(2) by (simp add: sum_list_normalized default_counts_sum[OF assms(4)])
  have "histogram_distance arr1 arr2 BinsNone = compare_histograms arr1 arr2 BinsNone"
    unfolding histogram_distance_cases[OF assms(1,2)] using r1 r2 by auto
  also have "\<dots> = Inr (sqerr_sum (normalized (bin_counts default_bins arr1) arr1)
                   (normalized (bin_counts default_bins arr2) arr2))"
    using srt e by (simp add: compare_histograms_def s1 s2)
  finally show ?thesis using s1 s2 by simp
qed

text \<open>
  C6 fails on the code. The sample \<open>1 + eps / 2\<close> passes the range assertions, which were
  widened by \<open>eps\<close> to admit it, but lies beyond the last bin edge \<open>1\<close>: the histogram does
  not count it, the normalized histogram sums to 0, and the assertion of line 128 fails.
\<close>

theorem histogram_distance_tolerance_band_fails:
  "0 - eps < 1 + eps / 2 \<and> 1 + eps / 2 < 1 + eps \<and>
   histogram_distance [1 + eps / 2] [1 / 2] BinsNone = Inl (AssertionError 128)"
  by (simp add: histogram_distance_def compare_histograms_def eps_def default_bins_eq normalized_def)

subsection \<open>Zeros against ones\<close>

text \<open>
  C7. For every \<open>N \<ge> 1\<close>, the distance between \<open>N\<close> zeros and \<open>N\<close> ones over the bins
  \<open>[0, 0.5, 1.0]\<close> is exactly 2: the zeros fill the first bin, the ones the second (the
  last bin is closed on the right).
\<close>

theorem histogram_distance_zeros_ones:
  assumes "1 \<le> N"
  shows "histogram_distance (replicate N 0) (replicate N 1) (BinsEdges [0, 1 / 2, 1]) = Inr 2"
proof -
  obtain n where N: "N = Suc n" using assms by (cases N) auto
  have e: "0 < eps" by (simp add: eps_def)
  have ne: "replicate N (0::real) \<noteq> []" "replicate N (1::real) \<noteq> []" using N by auto
  have "histogram_distance (replicate N 0) (replicate N 1) (BinsEdges [0, 1 / 2, 1])
        = compare_histograms (replicate N 0) (replicate N 1) (BinsEdges [0, 1 / 2, 1])"
    unfolding histogram_distance_cases[OF ne] using e by auto
  also have "\<dots> = Inr 2"
    using e N by (simp add: compare_histograms_def normalized_def sqerr_sum_def del: replicate.simps)
  finally show ?thesis .
qed

theorem histogram_distance_zeros_ones_witness:
  "(1::nat) \<le> 3 \<and> histogram_distance [0, 0, 0] [1, 1, 1] (BinsEdges [0, 1 / 2, 1]) = Inr 2"
  using histogram_distance_zeros_ones[of 3] by (simp add: numeral_3_eq_3)

subsection \<open>Falsy bins\<close>

text \<open>
  C10. For all arrays, an empty list of bins and the number 0 give what an absent \<^verbatim>\<open>bins\<close>
  argument gives, and that is the result over the eleven default edges
  \<open>0.0, 0.1, ..., 1.0\<close>.
\<close>

theorem histogram_distance_falsy_bins:
  "histogram_distance a b (BinsEdges []) = histogram_distance a b BinsNone \<and>
   histogram_distance a b (BinsInt 0) = histogram_distance a b BinsNone \<and>
   histogram_distance a b BinsNone =
     histogram_distance a b
       (BinsEdges [0, 1 / 10, 2 / 10, 3 / 10, 4 / 10, 5 / 10, 6 / 10, 7 / 10, 8 / 10, 9 / 10, 1])"
proof -
  have 1: "compare_histograms a b (BinsEdges []) = compare_histograms a b BinsNone"
    by (simp add: compare_histograms_def)
  have 2: "compare_histograms a b (BinsInt 0) = compare_histograms a b BinsNone"
    by (simp add: compare_histograms_def)
  have 3: "compare_histograms a b BinsNone =
     compare_histograms a b
       (BinsEdges [0, 1 / 10, 2 / 10, 3 / 10, 4 / 10, 5 / 10, 6 / 10, 7 / 10, 8 / 10, 9 / 10, 1])"
    by (simp add: compare_histograms_def default_bins_eq)
  show ?thesis
    unfolding histogram_distance_def 1 2 3 by simp
qed

theorem histogram_distance_falsy_bins_witness:
  "histogram_distance [1 / 20, 19 / 20] [1 / 2, 1 / 2] (BinsEdges []) = Inr (3 / 2) \<and>
   histogram_distance [1 / 20, 19 / 20] [1 / 2, 1 / 2] BinsNone = Inr (3 / 2)"
  using histogram_distance_falsy_bins[of "[1 / 20, 19 / 20]" "[1 / 2, 1 / 2]"]
  by (simp add: histogram_distance_def compare_histograms_def default_bins_eq eps_def
      normalized_def sqerr_sum_def power2_eq_square)

section \<open>Properties of calc\_downsample\<close>

lemma unit_roundoff_bounds: "0 < unit_roundoff" "unit_roundoff \<le> 1 / 2" "unit_roundoff < 1"
  by (simp_all add: unit_roundoff_def)

text \<open>An accurate rounding of \<open>x\<close> is not zero, has the sign of \<open>x\<close> and divides \<open>x\<close> to nearly one.\<close>
lemma accurate_quotient:
  assumes "accurate fl x" "x \<noteq> 0"
  shows "fl x \<noteq> 0 \<and> (0 < x \<longrightarrow> 0 < fl x) \<and> \<bar>x / fl x - 1\<bar> \<le> 2 * unit_roundoff"
proof -
  let ?u = unit_roundoff
  let ?r = "fl x"
  have a: "\<bar>?r - x\<bar> \<le> ?u * \<bar>x\<bar>" using assms(1) by (simp add: accurate_def)
  have xp: "0 < \<bar>x\<bar>" using assms(2) by simp
  have "\<bar>x\<bar> - \<bar>?r\<bar> \<le> \<bar>?r - x\<bar>" by linarith
  with a have lo: "(1 - ?u) * \<bar>x\<bar> \<le> \<bar>?r\<bar>" by (simp add: algebra_simps)
  have half: "1 / 2 * \<bar>x\<bar> \<le> (1 - ?u) * \<bar>x\<bar>"
    using unit_roundoff_bounds(2) xp by (intro mult_right_mono) auto
  with lo have rl: "1 / 2 * \<bar>x\<bar> \<le> \<bar>?r\<bar>" by linarith
  with xp have rp: "0 < \<bar>?r\<bar>" by linarith
  then have r0: "?r \<noteq> 0" by simp
  have sgn: "0 < ?r" if "0 < x"
  proof (rule ccontr)
    assume "\<not> 0 < ?r"
    then have "?r \<le> 0" by simp
    then have "\<bar>?r - x\<bar> \<ge> \<bar>x\<bar>" using that by simp
    moreover have "?u * \<bar>x\<bar> < \<bar>x\<bar>" using unit_roundoff_bounds(3) xp by simp
    ultimately show False using a by linarith
  qed
  have "\<bar>x / ?r - 1\<bar> = \<bar>x - ?r\<bar> / \<bar>?r\<bar>"
    using r0 by (simp add: field_simps abs_divide[symmetric] del: abs_divide)
  also have "\<dots> \<le> (?u * \<bar>x\<bar>) / \<bar>?r\<bar>"
    using a rp by (simp add: divide_right_mono abs_minus_commute)
  also have "\<dots> \<le> (?u * \<bar>x\<bar>) / (1 / 2 * \<bar>x\<bar>)"
    using rl xp unit_roundoff_bounds(1) by (intro divide_left_mono) (auto simp: mult_pos_pos)
  also have "\<dots> = 2 * ?u" using xp by simp
  finally show ?thesis using r0 sgn by blast
qed


lemma ratio_inverts:
  assumes "accurate fl (m / t)" "m \<noteq> 0" "t \<noteq> 0"
  shows "fl (m / t) \<noteq> 0" "0 < m / t \<Longrightarrow> 0 < fl (m / t)"
    "\<bar>m / fl (m / t) - t\<bar> \<le> 2 * unit_roundoff * \<bar>t\<bar>"
proof -
  define x where "x = m / t"
  define r where "r = fl x"
  have x0: "x \<noteq> 0" unfolding x_def using assms(2,3) by (metis divide_eq_0_iff)
  note q = accurate_quotient[OF assms(1)[folded x_def] x0, folded r_def]
  show "fl (m / t) \<noteq> 0" using q by (simp add: r_def x_def)
  show "0 < fl (m / t)" if "0 < m / t" using q that by (simp add: r_def x_def)
  have r0: "r \<noteq> 0" using q by simp
  have "m / r - t = t * (x / r - 1)"
    using assms(3) r0 by (simp add: x_def field_simps)
  then have "\<bar>m / r - t\<bar> = \<bar>t\<bar> * \<bar>x / r - 1\<bar>"
    by (simp add: abs_mult)
  also have "\<dots> \<le> \<bar>t\<bar> * (2 * unit_roundoff)"
    using q by (intro mult_left_mono) auto
  finally show "\<bar>m / fl (m / t) - t\<bar> \<le> 2 * unit_roundoff * \<bar>t\<bar>"
    by (simp add: mult.commute r_def x_def)
qed

lemma calc_downsample_min:
  assumes "target \<noteq> 0"
  shows "calc_downsample fl w h target =
           Inr (Some (fl (real_of_int (min w h) / real_of_int target)))"
  using assms by (auto simp: calc_downsample_def true_div_def min_def)

text \<open>
  C9, as the code has it. For positive width and height and a non-zero target, the ratio
  is the quotient of the smaller dimension by the target, rounded to a double. Where that
  rounding is accurate, the ratio is not zero and dividing by it brings the smaller
  dimension near the target: within the relative error \<open>2 * unit_roundoff\<close> of it. With the
  default target 400, the dimensions \<^verbatim>\<open>main\<close> floor-divides for the source image are the
  floors of the two quotients, and the smaller of them is 399 or 400.
\<close>

theorem calc_downsample_smallest_dimension:
  assumes "0 < w" "0 < h" "target \<noteq> 0"
    and "accurate fl (real_of_int (min w h) / real_of_int target)"
  shows "\<exists>r. calc_downsample fl w h target = Inr (Some r) \<and> r \<noteq> 0 \<and>
           \<bar>real_of_int (min w h) / r - real_of_int target\<bar>
             \<le> 2 * unit_roundoff * \<bar>real_of_int target\<bar> \<and>
           (target = 400 \<longrightarrow>
              source_shape fl w h None = (Inr (\<lfloor>real_of_int w / r\<rfloor>, \<lfloor>real_of_int h / r\<rfloor>)) \<and>
              (min \<lfloor>real_of_int w / r\<rfloor> \<lfloor>real_of_int h / r\<rfloor> = 399 \<or>
               min \<lfloor>real_of_int w / r\<rfloor> \<lfloor>real_of_int h / r\<rfloor> = 400))"
proof -
  let ?m = "real_of_int (min w h)" and ?t = "real_of_int target"
  define r where "r = fl (?m / ?t)"
  have "0 < min w h" using assms(1,2) by simp
  then have mp: "0 < ?m" by (simp only: of_int_0_less_iff)
  have mne: "?m \<noteq> 0" using mp by linarith
  have tne: "?t \<noteq> 0" using assms(3) by simp
  note q = ratio_inverts[OF assms(4) mne tne, folded r_def]
  have r0: "r \<noteq> 0" by (rule q(1))
  have c: "calc_downsample fl w h target = Inr (Some r)"
    by (simp add: calc_downsample_min[OF assms(3)] r_def)
  have near: "\<bar>?m / r - ?t\<bar> \<le> 2 * unit_roundoff * \<bar>?t\<bar>" by (rule q(3))
  have shape: "source_shape fl w h None = (Inr (\<lfloor>real_of_int w / r\<rfloor>, \<lfloor>real_of_int h / r\<rfloor>)) \<and>
              (min \<lfloor>real_of_int w / r\<rfloor> \<lfloor>real_of_int h / r\<rfloor> = 399 \<or>
               min \<lfloor>real_of_int w / r\<rfloor> \<lfloor>real_of_int h / r\<rfloor> = 400)" if t: "target = 400"
  proof -
    have "0 < ?m / ?t" using mp t by simp
    then have rp: "0 < r" by (rule q(2))
    have "\<bar>?m / r - 400\<bar> \<le> 2 * unit_roundoff * 400" using near t by simp
    also have "\<dots> < 1" by (simp add: unit_roundoff_def)
    finally have b: "399 < ?m / r" "?m / r < 401" by (simp_all add: abs_less_iff)
    then have fm: "\<lfloor>?m / r\<rfloor> = 399 \<or> \<lfloor>?m / r\<rfloor> = 400"
      by (simp add: floor_eq_iff) linarith
    have wnn: "0 \<le> real_of_int w / r" "0 \<le> real_of_int h / r"
      using assms(1,2) rp by simp_all
    have s: "source_shape fl w h None = Inr (\<lfloor>real_of_int w / r\<rfloor>, \<lfloor>real_of_int h / r\<rfloor>)"
      using c r0 wnn by (simp add: source_shape_def t floor_div_def py_int_def)
    have mono: "\<lfloor>?m / r\<rfloor> = min \<lfloor>real_of_int w / r\<rfloor> \<lfloor>real_of_int h / r\<rfloor>"
    proof (cases "w \<le> h")
      case True
      then have "real_of_int w / r \<le> real_of_int h / r" using rp by (simp add: divide_right_mono)
      then have "\<lfloor>real_of_int w / r\<rfloor> \<le> \<lfloor>real_of_int h / r\<rfloor>" by (rule floor_mono)
      with True show ?thesis by (simp add: min_def)
    next
      case False
      then have "real_of_int h / r \<le> real_of_int w / r" using rp by (simp add: divide_right_mono)
      then have "\<lfloor>real_of_int h / r\<rfloor> \<le> \<lfloor>real_of_int w / r\<rfloor>" by (rule floor_mono)
      with False show ?thesis by (simp add: min_def)
    qed
    from s fm mono show ?thesis by simp
  qed
  from c r0 near shape show ?thesis by blast
qed

lemma accurate_scale: "accurate (\<lambda>x. x * (1 + 1 / 2 ^ 53)) x"
  by (simp add: accurate_def unit_roundoff_def algebra_simps abs_mult)

theorem calc_downsample_smallest_dimension_witness:
  "accurate (\<lambda>x. x * (1 + 1 / 2 ^ 53)) (real_of_int (min 720 1080) / real_of_int 400) \<and>
   (\<exists>r. calc_downsample (\<lambda>x. x * (1 + 1 / 2 ^ 53)) 720 1080 400 = Inr (Some r) \<and>
        \<bar>real_of_int (min 720 1080) / r - real_of_int 400\<bar> \<le> 2 * unit_roundoff * \<bar>real_of_int 400\<bar> \<and>
        (min \<lfloor>real_of_int 720 / r\<rfloor> \<lfloor>real_of_int 1080 / r\<rfloor> = 399 \<or>
         min \<lfloor>real_of_int 720 / r\<rfloor> \<lfloor>real_of_int 1080 / r\<rfloor> = 400)) \<and>
   source_shape (\<lambda>x. x * (1 + 1 / 2 ^ 53)) 720 1080 None = Inr (399, 599)"
proof -
  have a: "accurate (\<lambda>x. x * (1 + 1 / 2 ^ 53)) (real_of_int (min 720 1080) / real_of_int 400)"
    by (rule accurate_scale)
  have s: "source_shape (\<lambda>x. x * (1 + 1 / 2 ^ 53)) 720 1080 None = Inr (399, 599)"
    by (simp add: source_shape_def calc_downsample_def true_div_def floor_div_def py_int_def
        floor_eq_iff)
  from calc_downsample_smallest_dimension[of 720 1080 400, OF _ _ _ a] a s
  show ?thesis by auto
qed

text \<open>
  C9 as stated fails: for a 4000 by 400 image and target 400 the quotient 400 / 400 is
  the double 1, whatever the rounding, and the largest dimension divided by it is 4000, ten
  times the target.
\<close>

theorem calc_downsample_largest_dimension_far:
  "calc_downsample (\<lambda>x. x) 4000 400 400 = Inr (Some 1) \<and>
   source_shape (\<lambda>x. x) 4000 400 None = Inr (4000, 400) \<and>
   real_of_int (max 4000 400) / 1 = 10 * real_of_int 400"
  by (simp add: calc_downsample_def true_div_def source_shape_def floor_div_def py_int_def)


text \<open>
  The reference image, whose dimensions \<^verbatim>\<open>main\<close> divides with \<^verbatim>\<open>/\<close> and truncates: where the
  three divisions round accurately, the smaller dimension read is 399 or 400 as well.
\<close>

lemma accurate_bounds:
  assumes "accurate fl y" "0 \<le> y"
  shows "(1 - unit_roundoff) * y \<le> fl y" "fl y \<le> (1 + unit_roundoff) * y"
  using assms by (simp_all add: accurate_def abs_le_iff algebra_simps)

lemma reference_shape_near:
  assumes "0 < w" "0 < h"
    and "accurate fl (real_of_int (min w h) / 400)"
    and "accurate fl (real_of_int w / fl (real_of_int (min w h) / 400))"
    and "accurate fl (real_of_int h / fl (real_of_int (min w h) / 400))"
  shows "\<exists>w' h'. reference_shape fl w h None = Inr (w', h') \<and>
           (min w' h' = 399 \<or> min w' h' = 400)"
proof -
  let ?m = "real_of_int (min w h)"
  define r where "r = fl (?m / 400)"
  have "0 < min w h" using assms(1,2) by simp
  then have mp: "0 < ?m" by (simp only: of_int_0_less_iff)
  have mne: "?m \<noteq> 0" using mp by linarith
  note q = ratio_inverts[OF assms(3) mne, folded r_def]
  have "0 < ?m / 400" using mp by linarith
  then have rp: "0 < r" using q(2) by simp
  have c: "calc_downsample fl w h 400 = Inr (Some r)"
    by (simp add: calc_downsample_min r_def)
  have "\<bar>?m / r - 400\<bar> \<le> 2 * unit_roundoff * \<bar>400\<bar>" using q(3) by simp
  then have near: "400 - 800 * unit_roundoff \<le> ?m / r" "?m / r \<le> 400 + 800 * unit_roundoff"
    by (simp_all add: abs_le_iff)
  have u: "unit_roundoff = 1 / 2 ^ 53" by (simp add: unit_roundoff_def)
  have lower: "399 < fl (real_of_int d / r)"
    if d: "min w h \<le> d" and a: "accurate fl (real_of_int d / r)" for d
  proof -
    have "?m \<le> real_of_int d" using d by (simp only: of_int_le_iff)
    then have "?m / r \<le> real_of_int d / r" using rp by (simp add: divide_right_mono)
    with near(1) have y: "400 - 800 * unit_roundoff \<le> real_of_int d / r" by linarith
    have "0 \<le> 400 - 800 * unit_roundoff" by (simp add: u)
    with y have y0: "0 \<le> real_of_int d / r" by linarith
    have "(1 - unit_roundoff) * (400 - 800 * unit_roundoff) \<le> (1 - unit_roundoff) * (real_of_int d / r)"
      using y by (intro mult_left_mono) (simp_all add: u)
    also have "\<dots> \<le> fl (real_of_int d / r)" by (rule accurate_bounds(1)[OF a y0])
    finally show ?thesis by (simp add: u)
  qed
  have upper: "fl (?m / r) < 401" if a: "accurate fl (?m / r)"
  proof -
    have y0: "0 \<le> ?m / r" using mp rp by simp
    have "fl (?m / r) \<le> (1 + unit_roundoff) * (?m / r)" by (rule accurate_bounds(2)[OF a y0])
    also have "\<dots> \<le> (1 + unit_roundoff) * (400 + 800 * unit_roundoff)"
      using near(2) by (intro mult_left_mono) (simp_all add: u)
    finally show ?thesis by (simp add: u)
  qed
  have aw: "accurate fl (real_of_int w / r)" and ah: "accurate fl (real_of_int h / r)"
    using assms(4,5) by (simp_all add: r_def)
  have lw: "399 < fl (real_of_int w / r)" by (rule lower[OF _ aw]) simp
  have lh: "399 < fl (real_of_int h / r)" by (rule lower[OF _ ah]) simp
  have s: "reference_shape fl w h None =
             Inr (\<lfloor>fl (real_of_int w / r)\<rfloor>, \<lfloor>fl (real_of_int h / r)\<rfloor>)"
    using c rp lw lh by (simp add: reference_shape_def true_div_def py_int_def)
  define a where "a = \<lfloor>fl (real_of_int w / r)\<rfloor>"
  define b where "b = \<lfloor>fl (real_of_int h / r)\<rfloor>"
  have fw: "399 \<le> a" using lw by (simp add: a_def le_floor_iff)
  have fh: "399 \<le> b" using lh by (simp add: b_def le_floor_iff)
  have "a \<le> 400 \<or> b \<le> 400"
  proof (cases "w \<le> h")
    case True
    then have "min w h = w" by simp
    with upper aw have "fl (real_of_int w / r) < 401" by simp
    then have "a < 401" by (simp add: a_def floor_less_iff)
    then show ?thesis by simp
  next
    case False
    then have "min w h = h" by simp
    with upper ah have "fl (real_of_int h / r) < 401" by simp
    then have "b < 401" by (simp add: b_def floor_less_iff)
    then show ?thesis by simp
  qed
  with fw fh have "min a b = 399 \<or> min a b = 400"
    unfolding min_def by presburger
  then have "min \<lfloor>fl (real_of_int w / r)\<rfloor> \<lfloor>fl (real_of_int h / r)\<rfloor> = 399 \<or>
             min \<lfloor>fl (real_of_int w / r)\<rfloor> \<lfloor>fl (real_of_int h / r)\<rfloor> = 400"
    by (simp only: a_def b_def)
  with s show ?thesis by blast
qed

section \<open>Properties of ColorEstimator\<close>

lemma keys_eq: "keys = [''gamma_red'', ''gamma_green'', ''gamma_blue'', ''contrast'']"
  by (simp add: keys_def)

subsection \<open>The constructor\<close>

text \<open>\<^verbatim>\<open>validate\<close> never returns True: it returns False or falls off the end.\<close>

lemma validate_loop_not_True: "validate_loop ks st \<noteq> Some True"
  by (induction ks) auto

lemma validate_never_True: "validate self \<noteq> Some True"
  by (simp add: validate_def validate_loop_not_True)

text \<open>
  With no \<^verbatim>\<open>_validate\<close> to inherit, every non-empty state given to the constructor ends in
  AttributeError, complete or not.
\<close>

lemma init_nonempty_state:
  "st \<noteq> [] \<Longrightarrow> fst (init None source reference (Some st) s) = Inl AttributeError"
  by (simp add: init_def np_copy_def)

text \<open>
  C1 fails on the code. A state with all four keys (here the default values, passed
  explicitly) does not construct an estimator: \<^verbatim>\<open>self._validate\<close> does not exist and the
  constructor raises AttributeError. The method that does exist, \<^verbatim>\<open>validate\<close>, returns None
  on that state, which the constructor's test would read as invalid.
\<close>

theorem init_complete_state_raises:
  "map_of default_params ''gamma_red'' = Some 1 \<and>
   map_of default_params ''gamma_green'' = Some 1 \<and>
   map_of default_params ''gamma_blue'' = Some 1 \<and>
   map_of default_params ''contrast'' = Some 10 \<and>
   fst (init None 0 1 (Some default_params) [[[1 / 2]], [[1 / 2]]]) = Inl AttributeError \<and>
   validate \<lparr>src = 0, ref = 1, state = default_params\<rparr> = None"
  by (simp add: init_def np_copy_def default_params_def validate_def keys_eq)

subsection \<open>cmd\<close>

lemma parse_spec_2f: "parse_spec ''.2f'' = Some 2"
  by (simp add: parse_spec_def is_digit_def digit_val_def read_nat_def)

lemma cmd_four_keys:
  assumes "map_of st ''gamma_red'' = Some r" "map_of st ''gamma_green'' = Some g"
    "map_of st ''gamma_blue'' = Some b" "map_of st ''contrast'' = Some c"
  shows "cmd st = Inr (''gamma r '' @ fmt_fixed 2 r @ '', gamma g '' @ fmt_fixed 2 g @
                       '', gamma b '' @ fmt_fixed 2 b @ '', sigmoidal rgb '' @ fmt_fixed 2 c @
                       '' 0.5'')"
  using assms by (simp add: cmd_def format_field_def parse_spec_2f)

lemma cmd_succeeds:
  assumes "\<forall>k\<in>set keys. map_of st k \<noteq> None"
  shows "\<exists>ops. cmd st = Inr ops"
proof -
  from assms obtain r g b c where
    "map_of st ''gamma_red'' = Some r" "map_of st ''gamma_green'' = Some g"
    "map_of st ''gamma_blue'' = Some b" "map_of st ''contrast'' = Some c"
    by (auto simp: keys_eq)
  from cmd_four_keys[OF this] show ?thesis by blast
qed

lemma digit_val_digit_char: "d < 10 \<Longrightarrow> digit_val (digit_char d) = d"
proof -
  assume "d < 10"
  then have "d \<in> {0, 1, 2, 3, 4, 5, 6, 7, 8, 9}" by auto
  then show ?thesis by (auto simp: digit_val_def digit_char_def)
qed

lemma digit_char_digit_val: "is_digit c \<Longrightarrow> digit_char (digit_val c) = c \<and> digit_val c < 10"
  by (auto simp: is_digit_def digit_val_def digit_char_def)

lemma digit_char_digit: "d < 10 \<Longrightarrow> is_digit (digit_char d)"
proof -
  assume "d < 10"
  then have "d \<in> {0, 1, 2, 3, 4, 5, 6, 7, 8, 9}" by auto
  then show ?thesis by (auto simp: is_digit_def digit_char_def)
qed

lemma digit_val_zero: "is_digit c \<Longrightarrow> (digit_val c = 0) = (c = CHR ''0'')"
  by (auto simp: is_digit_def digit_val_def)

lemma read_nat_snoc: "read_nat (ds @ [d]) = 10 * read_nat ds + digit_val d"
  by (simp add: read_nat_def)

lemma read_nat_single: "read_nat [d] = digit_val d"
  by (simp add: read_nat_def)

lemma show_nat_digits: "list_all is_digit (show_nat n) \<and> show_nat n \<noteq> []"
proof (induction n rule: show_nat.induct)
  case (1 n)
  show ?case
  proof (cases "n < 10")
    case True
    then show ?thesis by (simp add: show_nat.simps[of n] digit_char_digit)
  next
    case False
    with 1 show ?thesis by (simp add: show_nat.simps[of n] digit_char_digit)
  qed
qed

text \<open>Reading the digits of a number gives the number back.\<close>

lemma read_show_nat: "read_nat (show_nat n) = n"
proof (induction n rule: show_nat.induct)
  case (1 n)
  show ?case
  proof (cases "n < 10")
    case True
    then show ?thesis by (simp add: show_nat.simps[of n] read_nat_single digit_val_digit_char)
  next
    case False
    with 1 have "read_nat (show_nat (n div 10)) = n div 10" by simp
    with False show ?thesis
      by (simp add: show_nat.simps[of n] read_nat_snoc digit_val_digit_char)
  qed
qed

lemma show_nat_no_leading_zero: "hd (show_nat n) = CHR ''0'' \<Longrightarrow> show_nat n = ''0''"
proof (induction n rule: show_nat.induct)
  case (1 n)
  show ?case
  proof (cases "n < 10")
    case True
    with 1(2) have "digit_char n = CHR ''0''" by (simp add: show_nat.simps[of n])
    then have "digit_val (digit_char n) = 0" by (simp add: digit_val_def)
    with True have "n = 0" by (simp add: digit_val_digit_char)
    then show ?thesis by (simp add: show_nat.simps[of 0] digit_char_def)
  next
    case False
    have ne: "show_nat (n div 10) \<noteq> []" using show_nat_digits by blast
    with False 1(2) have "hd (show_nat (n div 10)) = CHR ''0''"
      by (simp add: show_nat.simps[of n])
    with 1(1) False have "show_nat (n div 10) = ''0''" by simp
    then have "read_nat (show_nat (n div 10)) = 0" by (simp add: read_nat_def digit_val_def)
    then have "n div 10 = 0" by (simp add: read_show_nat)
    with False show ?thesis by simp
  qed
qed

text \<open>A digit string without leading zeros is the text of the number it denotes.\<close>

lemma read_nat_pos:
  "ds \<noteq> [] \<Longrightarrow> list_all is_digit ds \<Longrightarrow> hd ds \<noteq> CHR ''0'' \<Longrightarrow> 0 < read_nat ds"
proof (induction ds rule: rev_induct)
  case Nil
  then show ?case by simp
next
  case (snoc d ds)
  show ?case
  proof (cases "ds = []")
    case True
    with snoc.prems have "is_digit d" "d \<noteq> CHR ''0''" by simp_all
    then have "digit_val d \<noteq> 0" by (simp add: digit_val_zero)
    with True show ?thesis by (simp add: read_nat_single)
  next
    case False
    with snoc have "0 < read_nat ds" by simp
    then show ?thesis by (simp add: read_nat_snoc)
  qed
qed

lemma show_read_nat:
  "ds \<noteq> [] \<Longrightarrow> list_all is_digit ds \<Longrightarrow> (hd ds = CHR ''0'' \<longrightarrow> ds = ''0'')
     \<Longrightarrow> show_nat (read_nat ds) = ds"
proof (induction ds rule: rev_induct)
  case Nil
  then show ?case by simp
next
  case (snoc d ds)
  have d: "is_digit d" using snoc.prems(2) by simp
  note dv = digit_char_digit_val[OF d]
  show ?case
  proof (cases "ds = []")
    case True
    then show ?thesis using dv by (simp add: read_nat_single show_nat.simps[of "digit_val d"])
  next
    case False
    have h: "hd ds \<noteq> CHR ''0''"
    proof
      assume "hd ds = CHR ''0''"
      with False have "hd (ds @ [d]) = CHR ''0''" by simp
      with snoc.prems(3) have "ds @ [d] = ''0''" by simp
      with False show False by (cases ds) simp_all
    qed
    have digs: "list_all is_digit ds" using snoc.prems(2) by simp
    have ih: "show_nat (read_nat ds) = ds" using snoc.IH[OF False digs] h by simp
    have pos: "0 < read_nat ds" by (rule read_nat_pos[OF False digs h])
    have "show_nat (10 * read_nat ds + digit_val d)
            = show_nat (read_nat ds) @ [digit_char (digit_val d)]"
      using pos dv by (simp add: show_nat.simps[of "10 * read_nat ds + digit_val d"])
    with ih dv show ?thesis by (simp add: read_nat_snoc)
  qed
qed

text \<open>The rounding of the formatter is to the nearest number, ties to even, and that is unique.\<close>

lemma round_half_even_nearest: "0 \<le> y \<Longrightarrow> nearest_tie_even y (round_half_even y)"
proof -
  assume y: "0 \<le> y"
  define n where "n = nat \<lfloor>y\<rfloor>"
  have n: "real n = of_int \<lfloor>y\<rfloor>" using y by (simp add: n_def)
  have lo: "real n \<le> y" and hi: "y < real n + 1" unfolding n by linarith+
  show ?thesis
    unfolding nearest_tie_even_def round_half_even_def Let_def n_def[symmetric]
    using lo hi by (auto simp: abs_if)
qed

lemma nearest_tie_even_unique:
  assumes "nearest_tie_even y n" "nearest_tie_even y m"
  shows "n = m"
proof -
  have a: "\<bar>real n - y\<bar> \<le> 1 / 2" "\<bar>real m - y\<bar> \<le> 1 / 2"
    using assms by (auto simp: nearest_tie_even_def)
  show ?thesis
  proof (cases "\<bar>real n - y\<bar> < 1 / 2 \<or> \<bar>real m - y\<bar> < 1 / 2")
    case True
    with a have "\<bar>real n - real m\<bar> < 1" by linarith
    then show ?thesis by linarith
  next
    case False
    with assms have e: "even n" "even m" by (auto simp: nearest_tie_even_def)
    from a have "\<bar>real n - real m\<bar> \<le> 1" by linarith
    then have "n = m \<or> n = Suc m \<or> m = Suc n" by linarith
    with e show ?thesis by auto
  qed
qed

text \<open>A number of hundredths and its three decimal parts.\<close>

lemma decimal_join:
  "10 * b + c = (m::nat) \<Longrightarrow> 100 * a + m = n \<Longrightarrow> 10 * (10 * a + b) + c = n"
  by presburger

lemma decimal_split:
  "10 * (10 * ((n::nat) div 100) + n mod 100 div 10) + n mod 100 mod 10 = n"
  using decimal_join[OF mult_div_mod_eq mult_div_mod_eq] .

lemma decimal_parts:
  assumes "b < 10" "c < 10"
  shows "(100 * a + (10 * b + c)) div 100 = (a::nat)"
    "(100 * a + (10 * b + c)) mod 100 div 10 = b"
    "(100 * a + (10 * b + c)) mod 100 mod 10 = c"
  using assms by simp_all

lemma decimal_unique:
  assumes "100 * a + (10 * b + c) = 100 * a' + (10 * b' + c')"
    and "b < 10" "c < 10" "b' < 10" "c' < 10"
  shows "a = a'" "b = b'" "(c::nat) = c'"
proof -
  note l = decimal_parts[OF assms(2,3), of a] and r = decimal_parts[OF assms(4,5), of a']
  show "a = a'" using l(1) r(1) assms(1) by simp
  show "b = b'" using l(2) r(2) assms(1) by simp
  show "c = c'" using l(3) r(3) assms(1) by simp
qed

text \<open>The two decimals of the formatter, for a number of hundredths below 100.\<close>

lemma show_nat_two_digits:
  assumes "m < 100"
  shows "replicate (2 - length (show_nat m)) CHR ''0'' @ show_nat m
           = [digit_char (m div 10), digit_char (m mod 10)]"
proof (cases "m < 10")
  case True
  then show ?thesis
    by (simp add: show_nat.simps[of m] digit_char_def numeral_2_eq_2)
next
  case False
  from assms have "m div 10 < 10" by simp
  then have "show_nat (m div 10) = [digit_char (m div 10)]"
    by (simp add: show_nat.simps[of "m div 10"])
  with False show ?thesis by (simp add: show_nat.simps[of m])
qed

text \<open>The formatter at precision 2 meets the spec's description, and only its text does.\<close>

lemma fmt_fixed_two_decimals: "spec_two_decimals v (fmt_fixed 2 v)"
proof -
  define n where "n = round_half_even (\<bar>v\<bar> * 100)"
  define ip where "ip = show_nat (n div 100)"
  define d1 where "d1 = digit_char (n mod 100 div 10)"
  define d2 where "d2 = digit_char (n mod 100 mod 10)"
  have m: "n mod 100 < 100" by simp
  have f: "fmt_fixed 2 v = (if v < 0 then ''-'' else []) @ ip @ [CHR ''.'', d1, d2]"
    using show_nat_two_digits[OF m]
    by (simp add: fmt_fixed_def Let_def n_def ip_def d1_def d2_def)
  have ipd: "list_all is_digit ip" "ip \<noteq> []" using show_nat_digits by (auto simp: ip_def)
  have dd: "is_digit d1" "is_digit d2"
    by (simp_all add: d1_def d2_def digit_char_digit)
  have canon: "hd ip = CHR ''0'' \<longrightarrow> ip = ''0''"
    using show_nat_no_leading_zero by (simp add: ip_def)
  have "read_nat (ip @ [d1, d2]) = 10 * (10 * read_nat ip + digit_val d1) + digit_val d2"
    using read_nat_snoc[of "ip @ [d1]" d2] read_nat_snoc[of ip d1] by simp
  also have "\<dots> = 10 * (10 * (n div 100) + n mod 100 div 10) + n mod 100 mod 10"
    by (simp add: ip_def read_show_nat d1_def d2_def digit_val_digit_char)
  also have "\<dots> = n" by (rule decimal_split)
  finally have r: "read_nat (ip @ [d1, d2]) = n" .
  have "nearest_tie_even (\<bar>v\<bar> * 100) n"
    unfolding n_def by (rule round_half_even_nearest) simp
  with r have near: "nearest_tie_even (\<bar>v\<bar> * 100) (read_nat (ip @ [d1, d2]))" by simp
  show ?thesis
    unfolding spec_two_decimals_def
    using f ipd dd canon near by (intro exI[of _ ip] exI[of _ d1] exI[of _ d2]) simp
qed

lemma spec_two_decimals_unique:
  assumes "spec_two_decimals v t1" "spec_two_decimals v t2"
  shows "t1 = t2"
proof -
  from assms(1) obtain ip d1 d2 where 1:
    "t1 = (if v < 0 then ''-'' else []) @ ip @ [CHR ''.'', d1, d2]"
    "ip \<noteq> []" "list_all is_digit (ip @ [d1, d2])" "hd ip = CHR ''0'' \<longrightarrow> ip = ''0''"
    "nearest_tie_even (\<bar>v\<bar> * 100) (read_nat (ip @ [d1, d2]))"
    unfolding spec_two_decimals_def by blast
  from assms(2) obtain jp e1 e2 where 2:
    "t2 = (if v < 0 then ''-'' else []) @ jp @ [CHR ''.'', e1, e2]"
    "jp \<noteq> []" "list_all is_digit (jp @ [e1, e2])" "hd jp = CHR ''0'' \<longrightarrow> jp = ''0''"
    "nearest_tie_even (\<bar>v\<bar> * 100) (read_nat (jp @ [e1, e2]))"
    unfolding spec_two_decimals_def by blast
  have eq: "read_nat (ip @ [d1, d2]) = read_nat (jp @ [e1, e2])"
    by (rule nearest_tie_even_unique[OF 1(5) 2(5)])
  have ri: "read_nat (ip @ [d1, d2]) = 100 * read_nat ip + (10 * digit_val d1 + digit_val d2)"
    using read_nat_snoc[of "ip @ [d1]" d2] read_nat_snoc[of ip d1] by simp
  have rj: "read_nat (jp @ [e1, e2]) = 100 * read_nat jp + (10 * digit_val e1 + digit_val e2)"
    using read_nat_snoc[of "jp @ [e1]" e2] read_nat_snoc[of jp e1] by simp
  have dg: "is_digit d1" "is_digit d2" "is_digit e1" "is_digit e2"
    "list_all is_digit ip" "list_all is_digit jp"
    using 1(3) 2(3) by simp_all
  have lt: "digit_val d1 < 10" "digit_val d2 < 10" "digit_val e1 < 10" "digit_val e2 < 10"
    using dg digit_char_digit_val by blast+
  from eq ri rj have
    "100 * read_nat ip + (10 * digit_val d1 + digit_val d2)
       = 100 * read_nat jp + (10 * digit_val e1 + digit_val e2)"
    by simp
  note u = decimal_unique[OF this lt]
  from u have
    "read_nat ip = read_nat jp" "digit_val d1 = digit_val e1" "digit_val d2 = digit_val e2"
    by simp_all
  then have "show_nat (read_nat ip) = show_nat (read_nat jp)"
    "digit_char (digit_val d1) = digit_char (digit_val e1)"
    "digit_char (digit_val d2) = digit_char (digit_val e2)"
    by simp_all
  then have "ip = jp" "d1 = e1" "d2 = e2"
    using show_read_nat[OF 1(2) dg(5) 1(4)] show_read_nat[OF 2(2) dg(6) 2(4)]
      digit_char_digit_val dg by simp_all
  with 1(1) 2(1) show ?thesis by simp
qed

lemma spec_two_decimals_iff: "spec_two_decimals v txt = (txt = fmt_fixed 2 v)"
  using fmt_fixed_two_decimals spec_two_decimals_unique by blast

text \<open>Values that need rounding, among them two ties and a negative value.\<close>

lemma fmt_fixed_rounds_up: "fmt_fixed 2 (999 / 1000) = ''1.00''"
  by code_simp

lemma fmt_fixed_tie_down: "fmt_fixed 2 (1 / 8) = ''0.12''"
  by code_simp

lemma fmt_fixed_tie_up: "fmt_fixed 2 (3 / 8) = ''0.38''"
  by code_simp

lemma fmt_fixed_negative: "fmt_fixed 2 (- 1 / 1000) = ''-0.00''"
  by code_simp

lemma fmt_fixed_one: "fmt_fixed 2 1 = ''1.00''"
  by code_simp

lemma fmt_fixed_ten: "fmt_fixed 2 10 = ''10.00''"
  by code_simp

text \<open>
  C3. For every state with the four keys, \<^verbatim>\<open>cmd\<close> returns the descriptor
  \<^verbatim>\<open>gamma r R, gamma g G, gamma b B, sigmoidal rgb C 0.5\<close> where R, G, B and C are the
  values of gamma\_red, gamma\_green, gamma\_blue and contrast at two decimals, each the one
  text \<^const>\<open>spec_two_decimals\<close> describes, and the midpoint is the literal 0.5; the result
  depends on the state only through its key-value mapping, so two equal states give the
  same string.
\<close>

theorem cmd_descriptor:
  assumes "map_of st ''gamma_red'' = Some r" "map_of st ''gamma_green'' = Some g"
    "map_of st ''gamma_blue'' = Some b" "map_of st ''contrast'' = Some c"
  shows "\<exists>R G B C.
     spec_two_decimals r R \<and> spec_two_decimals g G \<and>
     spec_two_decimals b B \<and> spec_two_decimals c C \<and>
     cmd st = Inr (''gamma r '' @ R @ '', gamma g '' @ G @ '', gamma b '' @ B @
                   '', sigmoidal rgb '' @ C @ '' 0.5'') \<and>
     (\<forall>st'. map_of st' = map_of st \<longrightarrow> cmd st' = cmd st)"
proof -
  have 1: "cmd st = Inr (''gamma r '' @ fmt_fixed 2 r @ '', gamma g '' @ fmt_fixed 2 g @
                       '', gamma b '' @ fmt_fixed 2 b @ '', sigmoidal rgb '' @ fmt_fixed 2 c @
                       '' 0.5'')"
    by (rule cmd_four_keys[OF assms])
  have 2: "cmd st' = cmd st" if "map_of st' = map_of st" for st'
    using cmd_four_keys[of st' r g b c] assms that 1 by simp
  have 3: "\<forall>st'. map_of st' = map_of st \<longrightarrow> cmd st' = cmd st"
    using 2 by blast
  show ?thesis
    apply (rule exI[of _ "fmt_fixed 2 r"])
    apply (rule exI[of _ "fmt_fixed 2 g"])
    apply (rule exI[of _ "fmt_fixed 2 b"])
    apply (rule exI[of _ "fmt_fixed 2 c"])
    apply (intro conjI fmt_fixed_two_decimals 1 3)
    done
qed

theorem cmd_descriptor_witness:
  "map_of default_params ''gamma_red'' = Some 1 \<and>
   map_of default_params ''gamma_green'' = Some 1 \<and>
   map_of default_params ''gamma_blue'' = Some 1 \<and>
   map_of default_params ''contrast'' = Some 10 \<and>
   cmd default_params = Inr ''gamma r 1.00, gamma g 1.00, gamma b 1.00, sigmoidal rgb 10.00 0.5''"
proof -
  have l: "map_of default_params ''gamma_red'' = Some 1"
    "map_of default_params ''gamma_green'' = Some 1"
    "map_of default_params ''gamma_blue'' = Some 1"
    "map_of default_params ''contrast'' = Some 10"
    by (simp_all add: default_params_def)
  from cmd_descriptor[OF l] obtain R G B C where
    s: "spec_two_decimals 1 R" "spec_two_decimals 1 G" "spec_two_decimals 1 B"
      "spec_two_decimals 10 C"
    and c: "cmd default_params = Inr (''gamma r '' @ R @ '', gamma g '' @ G @ '', gamma b '' @ B @
                   '', sigmoidal rgb '' @ C @ '' 0.5'')"
    by blast
  from s have "R = ''1.00''" "G = ''1.00''" "B = ''1.00''" "C = ''10.00''"
    by (simp_all add: spec_two_decimals_iff fmt_fixed_one fmt_fixed_ten)
  with c l show ?thesis by simp
qed

subsection \<open>move\<close>

lemma move_loop_key: "k \<noteq> ''bias'' \<Longrightarrow> move_loop st k g = (Inr k, g)"
  by (simp add: move_loop.simps)

text \<open>
  C4. On a state that maps the four keys, one call of \<^verbatim>\<open>move\<close> succeeds; the key \<open>k\<close> it
  changes is the one of the first draw, the multiplier \<open>m\<close> the one of the second draw, 0.9
  or 1.1; the new state maps \<open>k\<close> to the old value times \<open>m\<close> and every other key to what it
  mapped before. The loop with the \<^verbatim>\<open>bias\<close> guard draws nothing and changes nothing: exactly
  two draws are consumed.
\<close>

theorem move_updates_one_key:
  assumes "\<forall>k\<in>set keys. map_of (state self) k \<noteq> None"
  shows "\<exists>k\<in>set keys. \<exists>m\<in>{9 / 10, 11 / 10}. \<exists>v.
     k = keys ! (g 0 mod 4) \<and> m = [9 / 10, 11 / 10] ! (g 1 mod 2) \<and>
     map_of (state self) k = Some v \<and>
     move self g =
       (Inr (self\<lparr>state := AList.update k (v * m) (state self)\<rparr>), \<lambda>i. g (Suc (Suc i))) \<and>
     map_of (AList.update k (v * m) (state self)) k = Some (v * m) \<and>
     (\<forall>k'. k' \<noteq> k \<longrightarrow>
        map_of (AList.update k (v * m) (state self)) k' = map_of (state self) k')"
proof -
  define k where "k = keys ! (g 0 mod 4)"
  define m :: real where "m = [9 / 10, 11 / 10] ! (g 1 mod 2)"
  have len: "length keys = 4" by (simp add: keys_eq)
  have kin: "k \<in> set keys"
    unfolding k_def using len by (metis nth_mem mod_less_divisor zero_less_numeral)
  then have nb: "k \<noteq> ''bias''" by (auto simp: keys_eq)
  have "g 1 mod 2 = 0 \<or> g 1 mod 2 = 1" by auto
  then have min: "m \<in> {9 / 10, 11 / 10}" unfolding m_def by auto
  from kin assms obtain v where v: "map_of (state self) k = Some v" by auto
  have c1: "choice keys g = (Inr k, \<lambda>i. g (Suc i))"
    by (simp add: choice_def k_def len) (simp add: keys_eq)
  have c2: "choice [9 / 10, 11 / 10 :: real] (\<lambda>i. g (Suc i)) = (Inr m, \<lambda>i. g (Suc (Suc i)))"
    by (simp add: choice_def m_def numeral_2_eq_2)
  have mv: "move self g =
      (Inr (self\<lparr>state := AList.update k (v * m) (state self)\<rparr>), \<lambda>i. g (Suc (Suc i)))"
    by (simp add: move_def c1 c2 move_loop_key[OF nb] v)
  have u: "map_of (AList.update k (v * m) (state self)) = (map_of (state self))(k \<mapsto> v * m)"
    by (rule update_conv')
  have "map_of (AList.update k (v * m) (state self)) k = Some (v * m)"
    "\<forall>k'. k' \<noteq> k \<longrightarrow> map_of (AList.update k (v * m) (state self)) k' = map_of (state self) k'"
    unfolding u by simp_all
  with kin min v mv show ?thesis unfolding k_def m_def by blast
qed

theorem move_updates_one_key_witness:
  "move \<lparr>src = 0, ref = 1, state = default_params\<rparr> (\<lambda>i. i + 3) =
     (Inr \<lparr>src = 0, ref = 1,
           state = [(''gamma_red'', 1), (''gamma_green'', 1), (''gamma_blue'', 1), (''contrast'', 9)]\<rparr>,
      \<lambda>i. i + 5)"
proof -
  have k: "\<forall>k\<in>set keys. map_of (state \<lparr>src = 0, ref = 1, state = default_params\<rparr>) k \<noteq> None"
    by (simp add: keys_eq default_params_def)
  have a: "Suc (Suc (i + 3)) = i + 5" for i :: nat by simp
  from move_updates_one_key[OF k, of "\<lambda>i. i + 3"] show ?thesis
    by (auto simp: keys_eq default_params_def a)
qed

subsection \<open>energy\<close>

text \<open>A call writes to its argument and to new arrays only.\<close>

lemma call_frame:
  assumes "call f a s = (r, s')" "n \<le> a" "a < length s" "n \<le> length s"
  shows "length s \<le> length s' \<and> (\<forall>b<n. s' ! b = s ! b) \<and>
         (\<forall>a'. r = Inr a' \<longrightarrow> n \<le> a' \<and> a' < length s')"
  using assms
  by (auto simp: call_def Let_def nth_append split: sum.splits option.splits)

lemma apply_funcs_frame:
  assumes "apply_funcs fs a s = (r, s')" "n \<le> a" "a < length s" "n \<le> length s"
  shows "length s \<le> length s' \<and> (\<forall>b<n. s' ! b = s ! b) \<and>
         (\<forall>a'. r = Inr a' \<longrightarrow> n \<le> a' \<and> a' < length s')"
  using assms
proof (induction fs arbitrary: a s)
  case Nil
  then show ?case by auto
next
  case (Cons f fs)
  obtain r1 s1 where c: "call f a s = (r1, s1)" by (cases "call f a s")
  note fr = call_frame[OF c Cons.prems(2,3,4)]
  show ?case
  proof (cases r1)
    case (Inl e)
    with Cons.prems c fr show ?thesis by auto
  next
    case (Inr a1)
    with Cons.prems c have "apply_funcs fs a1 s1 = (r, s')" by simp
    from Cons.IH[OF this] fr Inr Cons.prems show ?thesis by auto
  qed
qed

text \<open>The array a call returns holds the value of the function on the argument's content.\<close>

lemma call_value:
  assumes "call f a s = (r, s')" "a < length s"
  shows "(\<forall>e. r = Inl e \<longrightarrow> func_value f (s ! a) = Inl e) \<and>
         (\<forall>a'. r = Inr a' \<longrightarrow> a' < length s' \<and> func_value f (s ! a) = Inr (s' ! a'))"
  using assms
  by (auto simp: call_def Let_def func_value_def nth_append split: sum.splits option.splits)

lemma apply_funcs_value:
  assumes "apply_funcs fs a s = (r, s')" "a < length s"
  shows "(\<forall>e. r = Inl e \<longrightarrow> transform fs (s ! a) = Inl e) \<and>
         (\<forall>a'. r = Inr a' \<longrightarrow> a' < length s' \<and> transform fs (s ! a) = Inr (s' ! a'))"
  using assms
proof (induction fs arbitrary: a s)
  case Nil
  then show ?case by auto
next
  case (Cons f fs)
  obtain r1 s1 where c: "call f a s = (r1, s1)" by (cases "call f a s")
  note v = call_value[OF c Cons.prems(2)]
  show ?case
  proof (cases r1)
    case (Inl e)
    with c v Cons.prems(1) show ?thesis by auto
  next
    case (Inr a1)
    with c Cons.prems have "apply_funcs fs a1 s1 = (r, s')" by simp
    from Cons.IH[OF this] v Inr show ?thesis by simp
  qed
qed

text \<open>Whatever \<^verbatim>\<open>energy\<close> returns or raises, every array allocated before the call is as it was.\<close>

lemma energy_frame:
  "\<forall>a<length s. snd (energy parse_operations self s) ! a = s ! a"
proof -
  define s1 where "s1 = s @ [s ! src self]"
  have cp: "np_copy (src self) s = (length s, s1)" by (simp add: np_copy_def s1_def)
  have s1: "\<forall>a<length s. s1 ! a = s ! a" by (simp add: s1_def nth_append)
  show ?thesis
  proof (cases "cmd (state self)")
    case (Inl e)
    then show ?thesis using s1 by (simp add: energy_def cp)
  next
    case ops: (Inr ops)
    show ?thesis
    proof (cases "parse_operations ops")
      case (Inl e)
      then show ?thesis using s1 ops by (simp add: energy_def cp)
    next
      case fs: (Inr funcs)
      obtain r s2 where ap: "apply_funcs funcs (length s) s1 = (r, s2)"
        by (cases "apply_funcs funcs (length s) s1")
      have "\<forall>b<length s. s2 ! b = s1 ! b"
        using apply_funcs_frame[OF ap, of "length s"] by (simp add: s1_def)
      with s1 have s2: "\<forall>b<length s. s2 ! b = s ! b" by simp
      have "snd (energy parse_operations self s) = s2"
        by (simp add: energy_def cp ops fs ap split: sum.splits)
      with s2 show ?thesis by simp
    qed
  qed
qed

lemma scores_three:
  assumes "3 \<le> length reference" "3 \<le> length arr"
   "\<forall>i<3. histogram_distance (reference ! i) (arr ! i) BinsNone = Inr (d i)"
  shows "scores [0..<3] reference arr = Inr [d 0, d (Suc 0), d (Suc (Suc 0))]"
proof -
  have u: "[0..<3] = [0, Suc 0, Suc (Suc 0)]" by (simp add: upt_rec eval_nat_numeral)
  have h: "histogram_distance (reference ! 0) (arr ! 0) BinsNone = Inr (d 0)"
    "histogram_distance (reference ! Suc 0) (arr ! Suc 0) BinsNone = Inr (d (Suc 0))"
    "histogram_distance (reference ! Suc (Suc 0)) (arr ! Suc (Suc 0)) BinsNone
       = Inr (d (Suc (Suc 0)))"
    using assms(3) by (simp_all add: eval_nat_numeral)
  have l: "0 < length reference" "Suc 0 < length reference" "Suc (Suc 0) < length reference"
    "0 < length arr" "Suc 0 < length arr" "Suc (Suc 0) < length arr"
    using assms(1,2) by auto
  show ?thesis unfolding u using l by (simp add: channel_def h)
qed

lemma histogram_distance_one_half: "histogram_distance [1] [1 / 2] BinsNone = Inr 2"
  by (simp add: histogram_distance_def compare_histograms_def default_bins_eq eps_def
      normalized_def sqerr_sum_def)

text \<open>
  C2. For a state with the four keys, the descriptor \<^verbatim>\<open>cmd\<close> builds exists, and whenever
  \<^verbatim>\<open>parse_operations\<close> returns functions for it, these functions applied in sequence to the
  content of the source buffer give an image, and \<^verbatim>\<open>histogram_distance\<close> of channel \<open>i\<close> of
  the reference buffer and channel \<open>i\<close> of that image is \<open>d i\<close> for \<open>i = 0, 1, 2\<close>, then
  \<^verbatim>\<open>energy\<close> returns 100 times \<open>d 0 + d 1 + d 2\<close>.
\<close>

theorem energy_scaled_sum:
  assumes "\<forall>k\<in>set keys. map_of (state self) k \<noteq> None"
    and "src self < length s" and "ref self < length s"
  shows "\<exists>ops. cmd (state self) = Inr ops \<and>
     (\<forall>funcs img d.
        parse_operations ops = Inr funcs \<and> transform funcs (s ! src self) = Inr img \<and>
        3 \<le> length (s ! ref self) \<and> 3 \<le> length img \<and>
        (\<forall>i<3. histogram_distance (s ! ref self ! i) (img ! i) BinsNone = Inr (d i))
        \<longrightarrow> fst (energy parse_operations self s) = Inr (100 * (\<Sum>i<3. d i)))"
proof -
  obtain ops where ops: "cmd (state self) = Inr ops"
    using cmd_succeeds[OF assms(1)] by blast
  define s1 where "s1 = s @ [s ! src self]"
  have cp: "np_copy (src self) s = (length s, s1)" by (simp add: np_copy_def s1_def)
  have "fst (energy parse_operations self s) = Inr (100 * (\<Sum>i<3. d i))"
    if fs: "parse_operations ops = Inr funcs" and tr: "transform funcs (s ! src self) = Inr img"
      and l: "3 \<le> length (s ! ref self)" "3 \<le> length img"
      and hd: "\<forall>i<3. histogram_distance (s ! ref self ! i) (img ! i) BinsNone = Inr (d i)"
    for funcs img d
  proof -
    obtain r s2 where ap: "apply_funcs funcs (length s) s1 = (r, s2)"
      by (cases "apply_funcs funcs (length s) s1")
    have top: "s1 ! length s = s ! src self" by (simp add: s1_def)
    have v: "(\<forall>e. r = Inl e \<longrightarrow> transform funcs (s1 ! length s) = Inl e) \<and>
         (\<forall>a'. r = Inr a' \<longrightarrow> a' < length s2 \<and> transform funcs (s1 ! length s) = Inr (s2 ! a'))"
      by (rule apply_funcs_value[OF ap]) (simp add: s1_def)
    with tr top obtain a' where r: "r = Inr a'" and img: "s2 ! a' = img"
      by (cases r) auto
    have "\<forall>b<length s. s2 ! b = s1 ! b"
      using apply_funcs_frame[OF ap, of "length s"] by (simp add: s1_def)
    then have rf: "s2 ! ref self = s ! ref self"
      using assms(3) by (simp add: s1_def nth_append)
    have sc: "scores [0..<3] (s2 ! ref self) (s2 ! a') = Inr [d 0, d (Suc 0), d (Suc (Suc 0))]"
      unfolding rf img by (rule scores_three[OF l hd])
    have sm: "(\<Sum>i<3. d i) = d 0 + d (Suc 0) + d (Suc (Suc 0))"
      by (simp add: eval_nat_numeral)
    show ?thesis
      by (simp add: energy_def cp ops fs ap r sc sm)
  qed
  with ops show ?thesis by blast
qed

theorem energy_scaled_sum_witness:
  "fst (energy (\<lambda>ops. Inr [\<lparr>arg_after = map (map (\<lambda>v. v / 2 + 1 / 2)), outcome = (\<lambda>x. Inr None)\<rparr>])
        \<lparr>src = 0, ref = 1, state = default_params\<rparr>
        [[[0], [0], [0]], [[1], [1], [1]]]) = Inr 600"
proof -
  let ?f = "\<lparr>arg_after = map (map (\<lambda>v::real. v / 2 + 1 / 2)), outcome = (\<lambda>x. Inr None)\<rparr>"
  let ?P = "\<lambda>ops::string. (Inr [?f] :: error + func list)"
  let ?self = "\<lparr>src = 0, ref = 1, state = default_params\<rparr>"
  let ?s = "[[[0], [0], [0]], [[1], [1], [1]]] :: store"
  have k: "\<forall>k\<in>set keys. map_of (state ?self) k \<noteq> None"
    by (simp add: keys_eq default_params_def)
  from energy_scaled_sum[of ?self ?s ?P, OF k] obtain ops where
    a: "\<forall>funcs img d.
        ?P ops = Inr funcs \<and> transform funcs (?s ! src ?self) = Inr img \<and>
        3 \<le> length (?s ! ref ?self) \<and> 3 \<le> length img \<and>
        (\<forall>i<3. histogram_distance (?s ! ref ?self ! i) (img ! i) BinsNone = Inr (d i))
        \<longrightarrow> fst (energy ?P ?self ?s) = Inr (100 * (\<Sum>i<3. d i))"
    by auto
  have h: "\<forall>i<3. histogram_distance (?s ! ref ?self ! i) ([[1 / 2], [1 / 2], [1 / 2]] ! i) BinsNone
            = Inr ((\<lambda>i. 2) i)"
    using histogram_distance_one_half by (auto simp: less_Suc_eq numeral_3_eq_3)
  have t: "transform [?f] (?s ! src ?self) = Inr [[1 / 2], [1 / 2], [1 / 2]]"
    by (simp add: func_value_def)
  from a[rule_format, of "[?f]" "[[1 / 2], [1 / 2], [1 / 2]]" "\<lambda>i. 2"] t h
  show ?thesis by simp
qed

text \<open>
  C8. \<^verbatim>\<open>energy\<close> leaves the source and the reference buffer as they were, element for
  element, for every state, every result of \<^verbatim>\<open>parse_operations\<close> and whether it returns or
  raises: the functions are applied to the copy made at line 74 and to what they return.
  The same holds of every other array that existed before the call.
\<close>

theorem energy_preserves_buffers:
  assumes "src self < length s" "ref self < length s"
  shows "snd (energy parse_operations self s) ! src self = s ! src self \<and>
         snd (energy parse_operations self s) ! ref self = s ! ref self \<and>
         (\<forall>a<length s. snd (energy parse_operations self s) ! a = s ! a)"
  using assms energy_frame[of s parse_operations self] by simp

theorem energy_preserves_buffers_witness:
  "snd (energy (\<lambda>ops. Inr [\<lparr>arg_after = map (map (\<lambda>v. v / 2 + 1 / 2)), outcome = (\<lambda>x. Inr None)\<rparr>])
        \<lparr>src = 0, ref = 1, state = default_params\<rparr>
        [[[0], [0], [0]], [[1], [1], [1]]]) ! 0 = [[0], [0], [0]] \<and>
   snd (energy (\<lambda>ops. Inr [\<lparr>arg_after = map (map (\<lambda>v. v / 2 + 1 / 2)), outcome = (\<lambda>x. Inr None)\<rparr>])
        \<lparr>src = 0, ref = 1, state = default_params\<rparr>
        [[[0], [0], [0]], [[1], [1], [1]]]) ! 1 = [[1], [1], [1]]"
  using energy_preserves_buffers[of "\<lparr>src = 0, ref = 1, state = default_params\<rparr>"
     "[[[0], [0], [0]], [[1], [1], [1]]]"
     "\<lambda>ops. Inr [\<lparr>arg_after = map (map (\<lambda>v. v / 2 + 1 / 2)), outcome = (\<lambda>x. Inr None)\<rparr>]"]
  by simp

end
